theory Spec2Isabelle
  imports Complex_Main "HOL-Library.Char_ord" "HOL-Library.List_Lexorder"
    "HOL-Library.Product_Lexorder" "HOL-Library.Multiset"
begin

section \<open>Data model\<close>

text \<open>
  Numbers. Registration counts are integers. Every quotient the program computes is a
  NumPy or Python float, that is an IEEE 754 binary64 value: a finite value, which is kept
  as the rational number it denotes, an infinity or NaN. The two zeros are not told
  apart. A quotient whose divisor is zero is not an error in NumPy but an infinity or NaN.
\<close>

datatype fval = Fin rat | PInf | NInf | NaN

datatype error = KeyError | ValueError | UnboundLocalError | OverflowError

text \<open>A calendar date as the \<open>.dt.year\<close>, \<open>.dt.month\<close>, \<open>.dt.day\<close> accessors show it.\<close>

record date =
  dt_year :: int
  dt_month :: int
  dt_day :: int

text \<open>A cell of a column whose type the program changes (\<open>quarter\<close>) or reads by name.\<close>

datatype cell = CStr string | CInt int | CDate date

record row =
  date :: date
  vehicle_category :: string
  vehicle_class :: string
  manufacturer :: string
  state :: string
  rto :: string
  registrations :: int
  quarter :: cell
  year :: int

subsection \<open>Dates\<close>





text \<open>\<open>.dt.quarter\<close>\<close>

definition dt_quarter :: "date \<Rightarrow> int" where
  "dt_quarter d = (dt_month d - 1) div 3 + 1"

text \<open>\<open>Series.max()\<close>: the greatest element, and NaN/NaT (here \<open>None\<close>) on an empty series.\<close>

fun series_max :: "int list \<Rightarrow> int option" where
  "series_max [] = None"
| "series_max (x # xs) = (case series_max xs of None \<Rightarrow> Some x | Some m \<Rightarrow> Some (max x m))"



definition eq_bound :: "int \<Rightarrow> int option \<Rightarrow> bool" where
  "eq_bound x b = (case b of None \<Rightarrow> False | Some v \<Rightarrow> x = v)"

text \<open>\<open>df[...]['registrations'].sum()\<close>\<close>

definition reg_sum :: "row list \<Rightarrow> int" where
  "reg_sum df = sum_list (map registrations df)"

section \<open>Binary64 arithmetic\<close>

text \<open>The number of binary digits of a natural number (\<open>int.bit_length\<close>).\<close>

fun bit_length :: "nat \<Rightarrow> nat" where
  "bit_length n = (if n = 0 then 0 else Suc (bit_length (n div 2)))"

declare bit_length.simps [simp del]

text \<open>Powers of two with an integer exponent.\<close>

definition pow2 :: "int \<Rightarrow> rat" where
  "pow2 k = (if k \<ge> 0 then 2 ^ nat k else 1 / 2 ^ nat (- k))"

text \<open>The binary exponent \<open>e\<close> of a positive number \<open>x\<close>: \<open>2 ^ e \<le> x < 2 ^ (e + 1)\<close>.\<close>

definition exponent :: "rat \<Rightarrow> int" where
  "exponent x = (if x \<ge> 1 then int (bit_length (nat \<lfloor>x\<rfloor>)) - 1
                 else - int (bit_length (nat (\<lceil>1 / x\<rceil> - 1))))"

text \<open>Rounding of an exact value to the nearest integer, ties to the even one.\<close>

definition round_half_even :: "rat \<Rightarrow> int" where
  "round_half_even x =
     (let f = \<lfloor>x\<rfloor>; r = x - of_int f
      in if r < 1 / 2 then f else if r > 1 / 2 then f + 1 else if even f then f else f + 1)"

text \<open>
  The binary64 value of an exact result: the nearest multiple of the unit in the last
  place, ties to even. A binary64 value has 53 significant bits, so the unit is
  \<open>2 ^ (e - 52)\<close> for a number of exponent \<open>e\<close>, and \<open>2 ^ - 1074\<close> below the normal
  range; a result that rounds to \<open>2 ^ 1024\<close> or beyond is an infinity.
\<close>

definition float64 :: "rat \<Rightarrow> fval" where
  "float64 x =
     (if x = 0 then Fin 0
      else let e = max (exponent \<bar>x\<bar>) (- 1022);
               ulp = pow2 (e - 52);
               y = of_int (round_half_even (\<bar>x\<bar> / ulp)) * ulp
           in if y \<ge> pow2 1024 then (if x > 0 then PInf else NInf)
              else Fin (if x > 0 then y else - y))"

text \<open>The conversion of an integer to binary64.\<close>

definition to_float :: "int \<Rightarrow> fval" where
  "to_float n = float64 (of_int n)"

text \<open>Binary64 addition, multiplication and division.\<close>

fun fadd :: "fval \<Rightarrow> fval \<Rightarrow> fval" where
  "fadd (Fin a) (Fin b) = float64 (a + b)"
| "fadd (Fin a) PInf = PInf"
| "fadd (Fin a) NInf = NInf"
| "fadd PInf (Fin b) = PInf"
| "fadd NInf (Fin b) = NInf"
| "fadd PInf PInf = PInf"
| "fadd NInf NInf = NInf"
| "fadd PInf NInf = NaN"
| "fadd NInf PInf = NaN"
| "fadd NaN v = NaN"
| "fadd (Fin a) NaN = NaN"
| "fadd PInf NaN = NaN"
| "fadd NInf NaN = NaN"

fun fmul :: "fval \<Rightarrow> fval \<Rightarrow> fval" where
  "fmul (Fin a) (Fin b) = float64 (a * b)"
| "fmul (Fin a) PInf = (if a > 0 then PInf else if a < 0 then NInf else NaN)"
| "fmul (Fin a) NInf = (if a > 0 then NInf else if a < 0 then PInf else NaN)"
| "fmul PInf (Fin b) = (if b > 0 then PInf else if b < 0 then NInf else NaN)"
| "fmul NInf (Fin b) = (if b > 0 then NInf else if b < 0 then PInf else NaN)"
| "fmul PInf PInf = PInf"
| "fmul PInf NInf = NInf"
| "fmul NInf PInf = NInf"
| "fmul NInf NInf = PInf"
| "fmul NaN v = NaN"
| "fmul (Fin a) NaN = NaN"
| "fmul PInf NaN = NaN"
| "fmul NInf NaN = NaN"

fun fdiv :: "fval \<Rightarrow> fval \<Rightarrow> fval" where
  "fdiv (Fin a) (Fin b) =
     (if b \<noteq> 0 then float64 (a / b) else if a > 0 then PInf else if a < 0 then NInf else NaN)"
| "fdiv (Fin a) PInf = Fin 0"
| "fdiv (Fin a) NInf = Fin 0"
| "fdiv PInf (Fin b) = (if b < 0 then NInf else PInf)"
| "fdiv NInf (Fin b) = (if b < 0 then PInf else NInf)"
| "fdiv PInf PInf = NaN"
| "fdiv PInf NInf = NaN"
| "fdiv NInf PInf = NaN"
| "fdiv NInf NInf = NaN"
| "fdiv NaN v = NaN"
| "fdiv (Fin a) NaN = NaN"
| "fdiv PInf NaN = NaN"
| "fdiv NInf NaN = NaN"

text \<open>\<open>numpy.rint\<close>: the nearest integer, ties to even.\<close>

fun rint :: "fval \<Rightarrow> fval" where
  "rint (Fin x) = Fin (of_int (round_half_even x))"
| "rint v = v"

text \<open>
  \<open>Series.round(d)\<close> for \<open>d > 0\<close>, which is \<open>numpy.round\<close>: the value is multiplied by
  \<open>10 ^ d\<close>, rounded to an integer and divided by \<open>10 ^ d\<close>, each step in binary64.
\<close>

definition np_round :: "nat \<Rightarrow> fval \<Rightarrow> fval" where
  "np_round d v = fdiv (rint (fmul v (Fin (10 ^ d)))) (Fin (10 ^ d))"

text \<open>
  \<open>ndarray.sum\<close> of a binary64 array. NumPy adds fewer than eight values from left to
  right; from eight values on it keeps eight running sums over the whole blocks of eight
  values, adds them pairwise and then adds the remaining values from left to right.
  (Arrays of more than 128 values are split first; the arrays summed here hold one value
  for each calendar month.)
\<close>

definition np_sum :: "fval list \<Rightarrow> fval" where
  "np_sum a =
     (let n = length a
      in if n < 8 then foldl fadd (Fin 0) a
         else let r = foldl (\<lambda>acc i. map2 fadd acc (take 8 (drop (8 * i) a))) (take 8 a) [1..<n div 8];
                  res = fadd (fadd (fadd (r ! 0) (r ! 1)) (fadd (r ! 2) (r ! 3)))
                             (fadd (fadd (r ! 4) (r ! 5)) (fadd (r ! 6) (r ! 7)))
              in foldl fadd res (drop (n - n mod 8) a))"

text \<open>
  \<open>Series.mean()\<close> of a binary64 series: NaN entries are skipped (they count as 0 in the
  sum and are left out of the count); the mean of no value is NaN.
\<close>

definition series_mean :: "fval list \<Rightarrow> fval" where
  "series_mean a =
     fdiv (np_sum (map (\<lambda>v. if v = NaN then Fin 0 else v) a))
          (to_float (int (length (filter (\<lambda>v. v \<noteq> NaN) a))))"

text \<open>The order of the values that are not NaN.\<close>

fun fval_key :: "fval \<Rightarrow> int \<times> rat" where
  "fval_key NInf = (-1, 0)"
| "fval_key (Fin x) = (0, x)"
| "fval_key PInf = (1, 0)"
| "fval_key NaN = (2, 0)"

text \<open>
  The order in which \<open>sort_values(ascending=False)\<close> leaves two values: the second one
  is NaN, or neither is and the first is at least the second.
\<close>

definition descending :: "fval \<Rightarrow> fval \<Rightarrow> bool" where
  "descending a b = (b = NaN \<or> (a \<noteq> NaN \<and> fval_key b \<le> fval_key a))"

section \<open>Growth calculator\<close>

text \<open>
  \<open>utils.calculate_percentage_change\<close>. The arguments are NumPy 64-bit integers or floats:
  the difference is exact on integers, the division converts both operands to binary64.
  The two constants of the zero branch are the Python integers 0 and 100.
\<close>

definition calculate_percentage_change :: "rat \<Rightarrow> rat \<Rightarrow> fval" where
  "calculate_percentage_change current previous =
     (if previous = 0 then (if current = 0 then Fin 0 else Fin 100)
      else fmul (fdiv (float64 (current - previous)) (float64 previous)) (Fin 100))"

text \<open>The local \<open>calculate_growth\<close> of \<open>data_loader.get_growth_metrics\<close>\<close>

definition calculate_growth :: "rat \<Rightarrow> rat \<Rightarrow> fval" where
  "calculate_growth current previous =
     (if previous = 0 then Fin 0
      else fmul (fdiv (float64 (current - previous)) (float64 previous)) (Fin 100))"





section \<open>Aggregation engine\<close>

text \<open>Column values are ordered within their own kind; dates chronologically.\<close>

fun cell_key :: "cell \<Rightarrow> nat \<times> int list \<times> string" where
  "cell_key (CStr s) = (0, [], s)"
| "cell_key (CInt i) = (1, [i], [])"
| "cell_key (CDate d) = (2, [dt_year d, dt_month d, dt_day d], [])"

instantiation cell :: linorder
begin

definition less_eq_cell :: "cell \<Rightarrow> cell \<Rightarrow> bool" where
  "less_eq_cell a b = (cell_key a \<le> cell_key b)"

definition less_cell :: "cell \<Rightarrow> cell \<Rightarrow> bool" where
  "less_cell a b = (cell_key a < cell_key b)"

instance
proof
  fix x y z :: cell
  show "(x < y) = (x \<le> y \<and> \<not> y \<le> x)"
    unfolding less_eq_cell_def less_cell_def by (rule less_le_not_le)
  show "x \<le> x"
    unfolding less_eq_cell_def by simp
  show "x \<le> y \<Longrightarrow> y \<le> z \<Longrightarrow> x \<le> z"
    unfolding less_eq_cell_def by (rule order_trans)
  show "x \<le> y \<or> y \<le> x"
    unfolding less_eq_cell_def by (rule linear)
  show "x \<le> y \<Longrightarrow> y \<le> x \<Longrightarrow> x = y"
  proof -
    assume "x \<le> y" and "y \<le> x"
    then have "cell_key x = cell_key y"
      unfolding less_eq_cell_def by simp
    then show "x = y"
      by (cases x; cases y) auto
  qed
qed

end

text \<open>
  \<open>df.groupby(key)\<close> with the default \<open>sort=True\<close>: one group for each distinct key, the
  groups in ascending key order.
\<close>

definition groupby_keys :: "('r \<Rightarrow> 'k::linorder) \<Rightarrow> 'r list \<Rightarrow> 'k list" where
  "groupby_keys key df = sort (remdups (map key df))"

text \<open>
  \<open>df.groupby(key)[col].sum()\<close>. The summed column is a parameter, so that the same
  function reads the counts as unbounded integers or as wrapping 64-bit ones.
\<close>

definition groupby_sum :: "('r \<Rightarrow> 'k::linorder) \<Rightarrow> ('r \<Rightarrow> 'v::comm_monoid_add) \<Rightarrow> 'r list \<Rightarrow> ('k \<times> 'v) list" where
  "groupby_sum key val df =
     map (\<lambda>k. (k, sum_list (map val (filter (\<lambda>r. key r = k) df)))) (groupby_keys key df)"

text \<open>
  \<open>df.groupby(key)['registrations'].mean()\<close>: the sum of each group, as a binary64 value,
  divided by the size of the group. (The running sum of a group is kept in binary64; it
  is the exact sum as long as that stays below \<open>2 ^ 53\<close>.)
\<close>

definition groupby_mean :: "('r \<Rightarrow> 'k::linorder) \<Rightarrow> ('r \<Rightarrow> int) \<Rightarrow> 'r list \<Rightarrow> ('k \<times> fval) list" where
  "groupby_mean key val df =
     map (\<lambda>k. (k, fdiv (to_float (sum_list (map val (filter (\<lambda>r. key r = k) df))))
                        (to_float (int (length (filter (\<lambda>r. key r = k) df))))))
         (groupby_keys key df)"

text \<open>
  \<open>sort_values(ascending=False)\<close>: the entries that are not NaN in descending order, then
  the NaN entries. Pandas sorts the reversed sequence ascending and reverses the result;
  the ascending sort is taken to be the insertion sort that NumPy runs on short arrays.
\<close>

definition sort_values_desc :: "('a \<Rightarrow> 'k::linorder) \<Rightarrow> ('a \<Rightarrow> bool) \<Rightarrow> 'a list \<Rightarrow> 'a list" where
  "sort_values_desc key isna xs =
     rev (sort_key key (rev (filter (\<lambda>x. \<not> isna x) xs))) @ filter isna xs"

text \<open>\<open>Series.unique()\<close>: the distinct values in order of first appearance.\<close>

definition unique :: "'a list \<Rightarrow> 'a list" where
  "unique xs = rev (remdups (rev xs))"

text \<open>The columns of a record collection, by name.\<close>

definition column :: "string \<Rightarrow> (row \<Rightarrow> cell) option" where
  "column name =
     (if name = ''date'' then Some (\<lambda>r. CDate (date r))
      else if name = ''vehicle_category'' then Some (\<lambda>r. CStr (vehicle_category r))
      else if name = ''vehicle_class'' then Some (\<lambda>r. CStr (vehicle_class r))
      else if name = ''manufacturer'' then Some (\<lambda>r. CStr (manufacturer r))
      else if name = ''state'' then Some (\<lambda>r. CStr (state r))
      else if name = ''rto'' then Some (\<lambda>r. CStr (rto r))
      else if name = ''registrations'' then Some (\<lambda>r. CInt (registrations r))
      else if name = ''quarter'' then Some quarter
      else if name = ''year'' then Some (\<lambda>r. CInt (year r))
      else None)"

text \<open>\<open>charts.create_trend_chart\<close>: the \<open>monthly_data\<close> table that the line chart draws.\<close>

definition create_trend_chart :: "row list \<Rightarrow> (((int \<times> int) \<times> string) \<times> int) list" where
  "create_trend_chart df =
     groupby_sum (\<lambda>r. ((dt_year (date r), dt_month (date r)), vehicle_category r)) registrations df"

section \<open>Market share\<close>

text \<open>
  \<open>utils.calculate_market_share\<close>. A \<open>group_by\<close> that names no column raises
  \<open>KeyError\<close>. The division converts the integer sums to binary64.
\<close>

definition calculate_market_share :: "row list \<Rightarrow> string \<Rightarrow> error + (cell \<times> fval) list" where
  "calculate_market_share df group_by =
     (let total_registrations = reg_sum df;
          grouped =
            (if group_by = ''manufacturer''
             then Inr (groupby_sum (\<lambda>r. CStr (manufacturer r)) registrations df)
             else if group_by = ''category''
             then Inr (groupby_sum (\<lambda>r. CStr (vehicle_category r)) registrations df)
             else (case column group_by of
                     None \<Rightarrow> Inl KeyError
                   | Some c \<Rightarrow> Inr (groupby_sum c registrations df)))
      in case grouped of
           Inl e \<Rightarrow> Inl e
         | Inr market_share \<Rightarrow>
             (let market_share_pct =
                    map (\<lambda>(k, s). (k, np_round 2 (fmul (fdiv (to_float s) (to_float total_registrations)) (Fin 100))))
                        market_share
              in Inr (sort_values_desc (\<lambda>p. fval_key (snd p)) (\<lambda>p. snd p = NaN) market_share_pct)))"

text \<open>
  The column that a \<open>group_by\<close> argument of \<open>calculate_market_share\<close> selects: the two
  short names first, any column name otherwise.
\<close>

definition grouping :: "string \<Rightarrow> (row \<Rightarrow> cell) option" where
  "grouping group_by =
     (if group_by = ''manufacturer'' then Some (\<lambda>r. CStr (manufacturer r))
      else if group_by = ''category'' then Some (\<lambda>r. CStr (vehicle_category r))
      else column group_by)"

section \<open>Operations that write to the shared collection\<close>

text \<open>
  The data frame that the analysis functions receive: the records, and the derived
  columns \<open>month\<close> and \<open>year_quarter\<close>, which are absent (\<open>None\<close>) until an operation
  assigns them. An operation that assigns a column returns the frame as its caller sees
  it afterwards.
\<close>

record frame =
  rows :: "row list"
  month :: "int list option"
  year_quarter :: "string list option"

definition digit_char :: "nat \<Rightarrow> char" where
  "digit_char n = ''0123456789'' ! n"

fun str_nat :: "nat \<Rightarrow> string" where
  "str_nat n = (if n < 10 then [digit_char n] else str_nat (n div 10) @ [digit_char (n mod 10)])"

declare str_nat.simps [simp del]

text \<open>\<open>astype(str)\<close> on an integer column.\<close>

definition str_int :: "int \<Rightarrow> string" where
  "str_int i = (if i < 0 then ''-'' @ str_nat (nat (- i)) else str_nat (nat i))"

definition month_names :: "string list" where
  "month_names = [''Jan'', ''Feb'', ''Mar'', ''Apr'', ''May'', ''Jun'',
                  ''Jul'', ''Aug'', ''Sep'', ''Oct'', ''Nov'', ''Dec'']"

record seasonal =
  Month :: string
  Average_Registrations :: fval
  Seasonal_Index :: fval

text \<open>
  \<open>utils.get_seasonal_patterns\<close>. The \<open>month\<close> column is assigned first; the table is
  built from the twelve month names and the values of the months that occur, and
  \<open>pd.DataFrame\<close> raises \<open>ValueError\<close> when the two lengths differ.
\<close>

definition get_seasonal_patterns :: "frame \<Rightarrow> (error + seasonal list) \<times> frame" where
  "get_seasonal_patterns f =
     (let months = map (\<lambda>r. dt_month (date r)) (rows f);
          df = f\<lparr>month := Some months\<rparr>;
          monthly_avg = groupby_mean fst (\<lambda>p. registrations (snd p)) (zip months (rows df));
          overall_avg = series_mean (map snd monthly_avg);
          seasonal_index = map (\<lambda>(k, a). (k, np_round 1 (fmul (fdiv a overall_avg) (Fin 100)))) monthly_avg
      in (if length monthly_avg = length month_names
          then Inr (map (\<lambda>(n, a, s). \<lparr>Month = n, Average_Registrations = a, Seasonal_Index = s\<rparr>)
                        (zip month_names (zip (map snd monthly_avg) (map snd seasonal_index))))
          else Inl ValueError,
          df))"

text \<open>
  \<open>charts.create_quarterly_comparison\<close>: the \<open>quarterly_data\<close> table that the bar chart
  draws, and the frame after the two column assignments.
\<close>

definition create_quarterly_comparison :: "frame \<Rightarrow> ((string \<times> string) \<times> int) list \<times> frame" where
  "create_quarterly_comparison f =
     (let df1 = f\<lparr>rows := map (\<lambda>r. r\<lparr>quarter := CInt (dt_quarter (date r))\<rparr>) (rows f)\<rparr>;
          yq = map (\<lambda>r. str_int (dt_year (date r)) @ ''-Q'' @ str_int (dt_quarter (date r))) (rows df1);
          df2 = df1\<lparr>year_quarter := Some yq\<rparr>;
          quarterly_data = groupby_sum (\<lambda>p. (fst p, vehicle_category (snd p)))
                                       (\<lambda>p. registrations (snd p)) (zip yq (rows df2))
      in (quarterly_data, df2))"

text \<open>
  \<open>charts.create_heatmap_analysis\<close>: the \<open>heatmap_data\<close> table that is pivoted and drawn,
  and the frame after the column assignment.
\<close>

definition create_heatmap_analysis :: "frame \<Rightarrow> ((int \<times> string) \<times> int) list \<times> frame" where
  "create_heatmap_analysis f =
     (let months = map (\<lambda>r. dt_month (date r)) (rows f);
          df = f\<lparr>month := Some months\<rparr>;
          heatmap_data = groupby_sum (\<lambda>p. (fst p, vehicle_category (snd p)))
                                     (\<lambda>p. registrations (snd p)) (zip months (rows df))
      in (heatmap_data, df))"

section \<open>Growth leaders\<close>

record leader =
  Type :: string
  Name :: string
  Current :: int
  Previous :: int
  Growth_Rate :: fval

text \<open>One pass of the body of either loop of \<open>identify_growth_leaders\<close>.\<close>

definition entity_growth :: "string \<Rightarrow> (row \<Rightarrow> string) \<Rightarrow> row list \<Rightarrow> row list \<Rightarrow> string \<Rightarrow> leader list" where
  "entity_growth ty col current_data previous_data name =
     (let current_total = reg_sum (filter (\<lambda>r. col r = name) current_data);
          previous_total = reg_sum (filter (\<lambda>r. col r = name) previous_data)
      in if previous_total > 0
         then [\<lparr>Type = ty, Name = name, Current = current_total, Previous = previous_total,
                Growth_Rate = calculate_percentage_change (of_int current_total) (of_int previous_total)\<rparr>]
         else [])"

text \<open>The two periods that \<open>identify_growth_leaders\<close> compares; none for an unknown period.\<close>

definition growth_periods :: "row list \<Rightarrow> string \<Rightarrow> (row list \<times> row list) option" where
  "growth_periods df period =
     (let current_year = series_max (map (\<lambda>r. dt_year (date r)) df)
      in if period = ''YoY''
         then Some (filter (\<lambda>r. eq_bound (dt_year (date r)) current_year) df,
                    filter (\<lambda>r. eq_bound (dt_year (date r)) (map_option (\<lambda>y. y - 1) current_year)) df)
         else if period = ''QoQ''
         then (let current_quarter = series_max (map (\<lambda>r. dt_quarter (date r)) df)
               in Some (filter (\<lambda>r. eq_bound (dt_year (date r)) current_year
                                   \<and> eq_bound (dt_quarter (date r)) current_quarter) df,
                        filter (\<lambda>r. eq_bound (dt_year (date r)) current_year
                                   \<and> eq_bound (dt_quarter (date r)) (map_option (\<lambda>q. q - 1) current_quarter)) df))
         else None)"

text \<open>
  \<open>utils.identify_growth_leaders\<close>. With an unknown period the two frames are never
  bound, and the first pass of a loop raises \<open>UnboundLocalError\<close>; on an empty collection
  no pass runs. Sorting the frame built from an empty list raises \<open>KeyError\<close>: it has no
  \<open>Growth_Rate\<close> column.
\<close>

definition identify_growth_leaders :: "row list \<Rightarrow> string \<Rightarrow> error + leader list" where
  "identify_growth_leaders df period =
     (case growth_periods df period of
        None \<Rightarrow> (if df = [] then Inl KeyError else Inl UnboundLocalError)
      | Some (current_data, previous_data) \<Rightarrow>
          (let growth_leaders =
                 concat (map (entity_growth ''Manufacturer'' manufacturer current_data previous_data)
                             (unique (map manufacturer df)))
                 @ concat (map (entity_growth ''Category'' vehicle_category current_data previous_data)
                               (unique (map vehicle_category df)))
           in if growth_leaders = [] then Inl KeyError
              else Inr (sort_values_desc (\<lambda>l. fval_key (Growth_Rate l)) (\<lambda>l. Growth_Rate l = NaN)
                          growth_leaders)))"



section \<open>Formatting layer\<close>

text \<open>The thousands separators of the \<open>,\<close> format option.\<close>

function commas :: "string \<Rightarrow> string" where
  "commas ds = (if length ds \<le> 3 then ds
                else commas (take (length ds - 3) ds) @ '','' @ drop (length ds - 3) ds)"
  by pat_completeness auto
termination
  by (relation "measure length") auto

declare commas.simps [simp del]

text \<open>
  The argument of \<open>format_number\<close>: \<open>None\<close>, an integer or a float. (A NumPy 64-bit
  integer of magnitude below \<open>2 ^ 53\<close> divides as the Python integer of the same value.)
\<close>

datatype pynum = PyNone | PyInt int | PyFloat fval

text \<open>\<open>pd.isna(num)\<close>\<close>

fun pd_isna :: "pynum \<Rightarrow> bool" where
  "pd_isna PyNone = True"
| "pd_isna (PyFloat NaN) = True"
| "pd_isna num = False"

text \<open>\<open>num == 0\<close>\<close>

fun is_zero :: "pynum \<Rightarrow> bool" where
  "is_zero (PyInt n) = (n = 0)"
| "is_zero (PyFloat (Fin x)) = (x = 0)"
| "is_zero num = False"

text \<open>\<open>abs(num) >= c\<close>; the comparison of a float with an integer is exact.\<close>

fun abs_ge :: "pynum \<Rightarrow> int \<Rightarrow> bool" where
  "abs_ge (PyInt n) c = (\<bar>n\<bar> \<ge> c)"
| "abs_ge (PyFloat (Fin x)) c = (\<bar>x\<bar> \<ge> of_int c)"
| "abs_ge (PyFloat PInf) c = True"
| "abs_ge (PyFloat NInf) c = True"
| "abs_ge num c = False"

text \<open>
  \<open>num / c\<close> for a positive integer constant \<open>c\<close>. The quotient of two Python integers is
  the binary64 value nearest to the exact quotient, and \<open>OverflowError\<close> is raised when it
  is beyond the binary64 range; a float is divided in binary64.
\<close>

fun truediv :: "pynum \<Rightarrow> int \<Rightarrow> error + fval" where
  "truediv (PyInt n) c =
     (case float64 (of_int n / of_int c) of Fin q \<Rightarrow> Inr (Fin q) | v \<Rightarrow> Inl OverflowError)"
| "truediv (PyFloat v) c = Inr (fdiv v (to_float c))"
| "truediv PyNone c = Inr NaN"

text \<open>The float that a number is formatted as.\<close>

fun as_float :: "pynum \<Rightarrow> fval" where
  "as_float (PyInt n) = to_float n"
| "as_float (PyFloat v) = v"
| "as_float PyNone = NaN"

text \<open>
  The \<open>.1f\<close> format: the sign, then the magnitude rounded to one decimal (ties of the
  exact binary value to even).
\<close>

fun fmt_1f :: "fval \<Rightarrow> string" where
  "fmt_1f (Fin x) =
     (let q = nat (round_half_even (\<bar>x\<bar> * 10))
      in (if x < 0 then ''-'' else []) @ str_nat (q div 10) @ ''.'' @ str_nat (q mod 10))"
| "fmt_1f PInf = ''inf''"
| "fmt_1f NInf = ''-inf''"
| "fmt_1f NaN = ''nan''"

text \<open>The \<open>,.0f\<close> format.\<close>

fun fmt_comma_0f :: "fval \<Rightarrow> string" where
  "fmt_comma_0f (Fin x) = (if x < 0 then ''-'' else []) @ commas (str_nat (nat (round_half_even \<bar>x\<bar>)))"
| "fmt_comma_0f PInf = ''inf''"
| "fmt_comma_0f NInf = ''-inf''"
| "fmt_comma_0f NaN = ''nan''"

text \<open>One branch of \<open>format_number\<close>: the quotient in one decimal, then the unit.\<close>

definition scaled :: "pynum \<Rightarrow> int \<Rightarrow> string \<Rightarrow> error + string" where
  "scaled num c u = (case truediv num c of Inl e \<Rightarrow> Inl e | Inr q \<Rightarrow> Inr (fmt_1f q @ u))"

text \<open>\<open>utils.format_number\<close>\<close>

definition format_number :: "pynum \<Rightarrow> error + string" where
  "format_number num =
     (if pd_isna num \<or> is_zero num then Inr ''0''
      else if abs_ge num 10000000 then scaled num 10000000 ''Cr''
      else if abs_ge num 100000 then scaled num 100000 ''L''
      else if abs_ge num 1000 then scaled num 1000 ''K''
      else Inr (fmt_comma_0f (as_float num)))"

section \<open>Example collections\<close>

text \<open>A record as \<open>generate_mock_data\<close> builds it, dated the first of the month.\<close>

definition mock_row :: "int \<Rightarrow> int \<Rightarrow> string \<Rightarrow> string \<Rightarrow> int \<Rightarrow> row" where
  "mock_row y m category mf n =
     \<lparr>date = \<lparr>dt_year = y, dt_month = m, dt_day = 1\<rparr>, vehicle_category = category,
      vehicle_class = ''SCOOTER'', manufacturer = mf, state = ''Delhi'', rto = ''DE07'',
      registrations = n, quarter = CStr (str_int y @ ''-Q'' @ str_int ((m - 1) div 3 + 1)), year = y\<rparr>"


text \<open>Two categories over two months, with one manufacturer in both categories.\<close>

definition two_month_rows :: "row list" where
  "two_month_rows =
     [mock_row 2024 1 ''A'' ''Honda'' 100, mock_row 2024 1 ''B'' ''Kia'' 200,
      mock_row 2024 2 ''A'' ''Honda'' 150, mock_row 2024 2 ''B'' ''Kia'' 100,
      mock_row 2024 2 ''A'' ''Kia'' 7]"

text \<open>Two manufacturers with equal totals, the alphabetically later one first.\<close>

definition tied_rows :: "row list" where
  "tied_rows = [mock_row 2024 3 ''2W'' ''Zeta'' 10, mock_row 2024 3 ''2W'' ''Alpha'' 10]"

text \<open>Two manufacturers with 137 and 23 of 160 registrations.\<close>

definition share_rows :: "row list" where
  "share_rows =
     [mock_row 2024 3 ''2W'' ''Beta'' 100, mock_row 2024 3 ''4W'' ''Alpha'' 23,
      mock_row 2024 3 ''4W'' ''Beta'' 37]"


text \<open>The latest record lies in the first quarter; the only earlier one in a second quarter.\<close>

definition second_quarter_rows :: "row list" where
  "second_quarter_rows = [mock_row 2023 4 ''2W'' ''X'' 10, mock_row 2024 1 ''2W'' ''X'' 20]"

text \<open>The latest record lies in the first quarter; the earlier one in a fourth quarter.\<close>

definition fourth_quarter_rows :: "row list" where
  "fourth_quarter_rows = [mock_row 2023 10 ''2W'' ''X'' 10, mock_row 2024 1 ''2W'' ''X'' 20]"

text \<open>A frame as loaded, without derived columns: one January record; no record at all.\<close>

definition january_frame :: frame where
  "january_frame = \<lparr>rows = [mock_row 2024 1 ''2W'' ''Honda'' 10], month = None, year_quarter = None\<rparr>"

definition empty_frame :: frame where
  "empty_frame = \<lparr>rows = [], month = None, year_quarter = None\<rparr>"


text \<open>
  One record of 7 registrations for each month of 2023 and a second January record in
  2024: all twelve months occur and every month has the same mean.
\<close>

definition uniform_frame :: frame where
  "uniform_frame =
     \<lparr>rows = map (\<lambda>m. mock_row 2023 m ''2W'' ''Honda'' 7) [1, 2, 3, 4, 5, 6, 7, 8, 9, 10, 11, 12]
              @ [mock_row 2024 1 ''2W'' ''Honda'' 7],
      month = None, year_quarter = None\<rparr>"

section \<open>Properties of the binary64 rounding\<close>

lemma floor_rat_numeral: "\<lfloor>numeral a / numeral b :: rat\<rfloor> = numeral a div numeral b"
  by (metis floor_divide_of_int_eq of_int_numeral)

lemma ceiling_rat_numeral: "\<lceil>numeral a / numeral b :: rat\<rceil> = - (- numeral a div numeral b)"
  by (metis ceiling_divide_eq_div of_int_numeral)

lemmas float_eval = float64_def to_float_def exponent_def pow2_def round_half_even_def Let_def
  bit_length.simps floor_rat_numeral ceiling_rat_numeral np_round_def

lemma bit_length_bounds:
  "0 < n \<Longrightarrow> 2 ^ (bit_length n - 1) \<le> n \<and> n < 2 ^ bit_length n"
proof (induction n rule: bit_length.induct)
  case (1 n)
  show ?case
  proof (cases "n div 2 = 0")
    case True
    with 1 have "n = 1" by presburger
    then show ?thesis
      by (simp add: bit_length.simps [of "Suc 0"] bit_length.simps [of 0])
  next
    case False
    then have m: "0 < n div 2" by simp
    from 1 have n: "n \<noteq> 0" by simp
    from 1(1) [OF n m] have lo: "2 ^ (bit_length (n div 2) - 1) \<le> n div 2"
      and hi: "n div 2 < 2 ^ bit_length (n div 2)" by simp_all
    have bl: "bit_length n = Suc (bit_length (n div 2))"
      using n by (simp add: bit_length.simps [of n])
    have pos: "0 < bit_length (n div 2)"
      using m by (simp add: bit_length.simps [of "n div 2"])
    have "(2::nat) ^ (bit_length n - 1) = 2 * 2 ^ (bit_length (n div 2) - 1)"
      unfolding bl using pos by (cases "bit_length (n div 2)") simp_all
    also have "\<dots> \<le> 2 * (n div 2)" using lo by simp
    also have "\<dots> \<le> n" by simp
    finally have a: "2 ^ (bit_length n - 1) \<le> n" .
    have "n < 2 * (n div 2) + 2" by presburger
    also have "\<dots> \<le> 2 * 2 ^ bit_length (n div 2)" using hi by simp
    also have "\<dots> = 2 ^ bit_length n" unfolding bl by simp
    finally have b: "n < 2 ^ bit_length n" .
    from a b show ?thesis ..
  qed
qed

lemma pow2_pos: "0 < pow2 k"
  by (simp add: pow2_def)

lemma pow2_of_nat: "pow2 (int n) = 2 ^ n"
  by (simp add: pow2_def)

lemma pow2_add: "pow2 (j + k) = pow2 j * pow2 k"
proof -
  have "pow2 k = 2 powi k" for k
    by (simp add: pow2_def power_int_def field_simps)
  then show ?thesis
    by (simp add: power_int_add)
qed

lemma pow2_mono: "j \<le> k \<Longrightarrow> pow2 j \<le> pow2 k"
proof -
  assume "j \<le> k"
  have p: "pow2 k = 2 powi k" for k
    by (simp add: pow2_def power_int_def field_simps)
  show ?thesis unfolding p using \<open>j \<le> k\<close> by (intro power_int_increasing) simp_all
qed

lemma exponent_bounds:
  assumes "0 < x"
  shows "pow2 (exponent x) \<le> x \<and> x < pow2 (exponent x + 1)"
proof (cases "1 \<le> x")
  case True
  define n where "n = nat \<lfloor>x\<rfloor>"
  have n: "0 < n" and nx: "of_nat n \<le> x" and xn: "x < of_nat n + 1"
    using True unfolding n_def by (simp_all add: of_nat_nat) linarith+
  have e: "exponent x = int (bit_length n) - 1"
    using True by (simp add: exponent_def n_def)
  from bit_length_bounds [OF n] have lo: "2 ^ (bit_length n - 1) \<le> n" and hi: "n < 2 ^ bit_length n"
    by simp_all
  have pos: "0 < bit_length n"
    using n by (simp add: bit_length.simps [of n])
  have e1: "pow2 (exponent x) = 2 ^ (bit_length n - 1)"
    unfolding e using pos by (simp add: pow2_def nat_diff_distrib)
  have e2: "pow2 (exponent x + 1) = 2 ^ bit_length n"
    unfolding e by (simp add: pow2_def)
  have "(2::rat) ^ (bit_length n - 1) \<le> of_nat n"
    using lo by (metis of_nat_le_iff of_nat_numeral of_nat_power)
  then have "(2::rat) ^ (bit_length n - 1) \<le> x"
    using nx by (rule order_trans)
  then have a: "pow2 (exponent x) \<le> x"
    unfolding e1 .
  have "n + 1 \<le> 2 ^ bit_length n" using hi by simp
  then have "(of_nat (n + 1) :: rat) \<le> of_nat (2 ^ bit_length n)"
    by (rule of_nat_mono)
  then have "of_nat n + 1 \<le> (2::rat) ^ bit_length n" by simp
  with xn have "x < 2 ^ bit_length n"
    by (rule less_le_trans)
  then have b: "x < pow2 (exponent x + 1)"
    unfolding e2 .
  from a b show ?thesis ..
next
  case False
  define y where "y = 1 / x"
  define m where "m = nat (\<lceil>y\<rceil> - 1)"
  have y1: "1 < y" using False assms by (simp add: y_def)
  then have c2: "2 \<le> \<lceil>y\<rceil>" by linarith
  then have m: "0 < m" unfolding m_def by simp
  have my: "of_nat m < y" and ym: "y \<le> of_nat m + 1"
    unfolding m_def using c2 by (simp_all add: of_nat_nat) linarith+
  have e: "exponent x = - int (bit_length m)"
    using False by (simp add: exponent_def m_def y_def)
  from bit_length_bounds [OF m] have lo: "2 ^ (bit_length m - 1) \<le> m" and hi: "m < 2 ^ bit_length m"
    by simp_all
  have pos: "0 < bit_length m"
    using m by (simp add: bit_length.simps [of m])
  have e1: "pow2 (exponent x) = 1 / 2 ^ bit_length m"
    unfolding e using pos by (simp add: pow2_def)
  have e2: "pow2 (exponent x + 1) = 1 / 2 ^ (bit_length m - 1)"
  proof -
    obtain k where k: "bit_length m = Suc k"
      using pos by (cases "bit_length m") auto
    have eq: "exponent x + 1 = - int k"
      unfolding e k by simp
    have "pow2 (- int k) = 1 / 2 ^ k"
      by (simp add: pow2_def)
    then show ?thesis
      unfolding eq k by simp
  qed
  have "m + 1 \<le> 2 ^ bit_length m" using hi by simp
  then have "(of_nat (m + 1) :: rat) \<le> of_nat (2 ^ bit_length m)"
    by (rule of_nat_mono)
  then have "of_nat m + 1 \<le> (2::rat) ^ bit_length m" by simp
  with ym have "y \<le> 2 ^ bit_length m"
    by (rule order_trans)
  then have a: "pow2 (exponent x) \<le> x"
    unfolding e1 y_def using assms by (simp add: field_simps)
  have "(2::rat) ^ (bit_length m - 1) \<le> of_nat m"
    using lo by (metis of_nat_le_iff of_nat_numeral of_nat_power)
  then have "2 ^ (bit_length m - 1) < y" using my by (rule le_less_trans)
  then have b: "x < pow2 (exponent x + 1)"
    unfolding e2 y_def using assms by (simp add: field_simps)
  from a b show ?thesis ..
qed

lemma round_half_even_error: "\<bar>of_int (round_half_even z) - z\<bar> \<le> 1 / 2"
proof -
  have "of_int \<lfloor>z\<rfloor> \<le> z" "z < of_int \<lfloor>z\<rfloor> + 1"
    by linarith+
  then show ?thesis
    unfolding round_half_even_def Let_def by (auto simp: abs_le_iff)
qed

lemma round_half_even_of_int: "round_half_even (of_int k) = k"
  by (simp add: round_half_even_def)

lemma round_half_even_le:
  assumes "z \<le> of_int k"
  shows "round_half_even z \<le> k"
proof -
  have "of_int (round_half_even z) \<le> z + 1 / 2"
    using round_half_even_error [of z] by linarith
  with assms have "(of_int (round_half_even z) :: rat) < of_int k + 1"
    by simp
  then have "(of_int (round_half_even z) :: rat) < of_int (k + 1)"
    by simp
  then have "round_half_even z < k + 1"
    by (simp only: of_int_less_iff)
  then show ?thesis by simp
qed

lemma round_half_even_nonneg: "0 \<le> z \<Longrightarrow> 0 \<le> round_half_even z"
  by (simp add: round_half_even_def Let_def)

text \<open>
  The rounded magnitude of a number other than zero: it is within half a unit of the exact
  magnitude, and it does not leave the binade of the unit.
\<close>

lemma rounded_magnitude:
  fixes x :: rat
  assumes "x \<noteq> 0"
  defines "e \<equiv> max (exponent \<bar>x\<bar>) (- 1022)"
  defines "y \<equiv> of_int (round_half_even (\<bar>x\<bar> / pow2 (e - 52))) * pow2 (e - 52)"
  shows "\<bar>y - \<bar>x\<bar>\<bar> \<le> pow2 (e - 52) / 2" and "0 \<le> y" and "y \<le> pow2 (e + 1)"
proof -
  let ?u = "pow2 (e - 52)"
  let ?z = "\<bar>x\<bar> / ?u"
  have u: "0 < ?u" by (rule pow2_pos)
  have a: "0 < \<bar>x\<bar>" using assms(1) by simp
  have "y - \<bar>x\<bar> = (of_int (round_half_even ?z) - ?z) * ?u"
    unfolding y_def using u by (simp add: field_simps)
  then have "\<bar>y - \<bar>x\<bar>\<bar> = \<bar>of_int (round_half_even ?z) - ?z\<bar> * ?u"
    using u by (simp add: abs_mult)
  also have "\<dots> \<le> (1 / 2) * ?u"
    using round_half_even_error [of ?z] u by (intro mult_right_mono) simp_all
  finally show "\<bar>y - \<bar>x\<bar>\<bar> \<le> ?u / 2" by simp
  have "0 \<le> ?z" using u by simp
  then have "0 \<le> round_half_even ?z" by (rule round_half_even_nonneg)
  then show "0 \<le> y" unfolding y_def using u by simp
  have "\<bar>x\<bar> < pow2 (exponent \<bar>x\<bar> + 1)"
    using exponent_bounds [OF a] by simp
  also have "\<dots> \<le> pow2 (e + 1)"
    unfolding e_def by (rule pow2_mono) simp
  also have "pow2 (e + 1) = 2 ^ 53 * ?u"
  proof -
    have "e + 1 = 53 + (e - 52)" by arith
    then have "pow2 (e + 1) = pow2 (53 + (e - 52))" by (rule arg_cong)
    also have "\<dots> = pow2 53 * ?u" by (rule pow2_add)
    also have "pow2 53 = 2 ^ 53" by (simp add: pow2_def)
    finally show ?thesis .
  qed
  finally have "?z < 2 ^ 53" using u by (simp add: field_simps)
  then have "?z \<le> of_int (2 ^ 53)" by simp
  then have "round_half_even ?z \<le> 2 ^ 53" by (rule round_half_even_le)
  then have "(of_int (round_half_even ?z) :: rat) \<le> of_int (2 ^ 53)"
    by (simp only: of_int_le_iff)
  then have "of_int (round_half_even ?z) * ?u \<le> 2 ^ 53 * ?u"
    using u by (intro mult_right_mono) simp_all
  then show "y \<le> pow2 (e + 1)"
    unfolding y_def \<open>pow2 (e + 1) = 2 ^ 53 * ?u\<close> .
qed

text \<open>The rounding is symmetric about zero.\<close>

lemma float64_minus:
  "float64 (- x) = (case float64 x of Fin y \<Rightarrow> Fin (- y) | PInf \<Rightarrow> NInf | NInf \<Rightarrow> PInf | NaN \<Rightarrow> NaN)"
  by (cases "x = 0"; cases "0 < x") (simp_all add: float64_def Let_def)

text \<open>
  Below \<open>2 ^ 1023\<close> the rounding gives a finite value, whose distance from the exact
  value is at most half a unit in the last place: the exact value times \<open>2 ^ - 53\<close>, or
  \<open>2 ^ - 1075\<close> in the subnormal range.
\<close>

lemma float64_finite:
  assumes "\<bar>x\<bar> < pow2 1023"
  shows "\<exists>y. float64 x = Fin y \<and> \<bar>y - x\<bar> \<le> max (\<bar>x\<bar> / 2 ^ 53) (1 / 2 ^ 1075) \<and> (0 \<le> x \<longrightarrow> 0 \<le> y) \<and> (x \<le> 0 \<longrightarrow> y \<le> 0)"
proof (cases "x = 0")
  case True
  then show ?thesis by (simp add: float64_def)
next
  case False
  define e where "e = max (exponent \<bar>x\<bar>) (- 1022)"
  define y where "y = of_int (round_half_even (\<bar>x\<bar> / pow2 (e - 52))) * pow2 (e - 52)"
  note rm = rounded_magnitude [OF False, folded e_def, folded y_def]
  have a: "0 < \<bar>x\<bar>" using False by simp
  have lo: "pow2 (exponent \<bar>x\<bar>) \<le> \<bar>x\<bar>"
    using exponent_bounds [OF a] by simp
  have "\<not> 1023 \<le> exponent \<bar>x\<bar>"
  proof
    assume "1023 \<le> exponent \<bar>x\<bar>"
    then have "pow2 1023 \<le> pow2 (exponent \<bar>x\<bar>)" by (rule pow2_mono)
    with lo assms show False by simp
  qed
  then have e: "e \<le> 1022" unfolding e_def by simp
  then have "pow2 (e + 1) \<le> pow2 1023" by (intro pow2_mono) simp
  also have "pow2 1023 < pow2 1024" by (simp add: pow2_def)
  finally have fin: "\<not> pow2 1024 \<le> y" using rm(3) by simp
  have f: "float64 x = Fin (if 0 < x then y else - y)"
    using False fin unfolding float64_def Let_def e_def [symmetric] y_def [symmetric] by simp
  have half: "pow2 (e - 52) / 2 \<le> max (\<bar>x\<bar> / 2 ^ 53) (1 / 2 ^ 1075)"
  proof (cases "- 1022 \<le> exponent \<bar>x\<bar>")
    case True
    then have "e = exponent \<bar>x\<bar>" unfolding e_def by simp
    have "pow2 (e - 52) = pow2 (e + (- 52))" by simp
    also have "\<dots> = pow2 e * pow2 (- 52)" by (rule pow2_add)
    also have "pow2 (- 52) = 1 / 2 ^ 52" by (simp add: pow2_def)
    finally have "pow2 (e - 52) / 2 = pow2 e / 2 ^ 53" by simp
    also have "\<dots> \<le> \<bar>x\<bar> / 2 ^ 53"
      using lo unfolding \<open>e = exponent \<bar>x\<bar>\<close> by (intro divide_right_mono) simp_all
    finally show ?thesis by simp
  next
    case False
    then have "e = - 1022" unfolding e_def by simp
    then have "pow2 (e - 52) / 2 = 1 / 2 ^ 1075" by (simp add: pow2_def)
    then show ?thesis by simp
  qed
  have d: "\<bar>(if 0 < x then y else - y) - x\<bar> = \<bar>y - \<bar>x\<bar>\<bar>"
    using False by (cases "0 < x") (simp_all add: abs_minus_commute)
  have s: "(0 \<le> x \<longrightarrow> 0 \<le> (if 0 < x then y else - y)) \<and> (x \<le> 0 \<longrightarrow> (if 0 < x then y else - y) \<le> 0)"
    using False rm(2) by (cases "0 < x") auto
  have "\<bar>(if 0 < x then y else - y) - x\<bar> \<le> max (\<bar>x\<bar> / 2 ^ 53) (1 / 2 ^ 1075)"
    unfolding d using rm(1) half by (rule order_trans)
  with f s show ?thesis by blast
qed

text \<open>An integer of magnitude below \<open>2 ^ 53\<close> is its own binary64 value.\<close>

lemma to_float_exact:
  assumes "\<bar>n\<bar> < 2 ^ 53"
  shows "to_float n = Fin (of_int n)"
proof (cases "n = 0")
  case True
  then show ?thesis by (simp add: to_float_def float64_def)
next
  case False
  define x :: rat where "x = of_int n"
  have x0: "x \<noteq> 0" and ax: "\<bar>x\<bar> = of_int \<bar>n\<bar>" using False by (simp_all add: x_def)
  have a: "0 < \<bar>x\<bar>" using x0 by simp
  have "1 \<le> \<bar>n\<bar>" using False by simp
  then have "(of_int 1 :: rat) \<le> of_int \<bar>n\<bar>" by (simp only: of_int_le_iff)
  then have one: "1 \<le> \<bar>x\<bar>" unfolding ax by simp
  define e0 where "e0 = exponent \<bar>x\<bar>"
  have b: "pow2 e0 \<le> \<bar>x\<bar>" "\<bar>x\<bar> < pow2 (e0 + 1)"
    using exponent_bounds [OF a] unfolding e0_def by simp_all
  have "\<bar>x\<bar> < pow2 53" unfolding ax using assms by (simp add: pow2_def)
  with b(1) have "pow2 e0 < pow2 53" by simp
  then have "\<not> 53 \<le> e0" using pow2_mono [of 53 e0] by auto
  then have hi: "e0 \<le> 52" by simp
  have "pow2 0 < pow2 (e0 + 1)" using one b(2) by (simp add: pow2_def)
  then have "\<not> e0 + 1 \<le> 0" using pow2_mono [of "e0 + 1" 0] by auto
  then have lo: "0 \<le> e0" by simp
  have e: "max e0 (- 1022) = e0" using lo by simp
  define k where "k = nat (52 - e0)"
  have u: "pow2 (e0 - 52) = 1 / 2 ^ k"
  proof -
    have "e0 - 52 = - int k" unfolding k_def using hi by simp
    then have "pow2 (e0 - 52) = pow2 (- int k)" by simp
    also have "\<dots> = 1 / 2 ^ k" by (simp add: pow2_def)
    finally show ?thesis .
  qed
  have z: "\<bar>x\<bar> / pow2 (e0 - 52) = of_int (\<bar>n\<bar> * 2 ^ k)"
    unfolding u ax by simp
  have y: "of_int (round_half_even (\<bar>x\<bar> / pow2 (e0 - 52))) * pow2 (e0 - 52) = \<bar>x\<bar>"
    unfolding z round_half_even_of_int unfolding u ax by simp
  have "\<bar>x\<bar> < pow2 1024"
    using \<open>\<bar>x\<bar> < pow2 53\<close> pow2_mono [of 53 1024] by simp
  then have "float64 x = Fin (if 0 < x then \<bar>x\<bar> else - \<bar>x\<bar>)"
    using x0 unfolding float64_def Let_def e0_def [symmetric] e y by simp
  then show ?thesis
    unfolding to_float_def x_def [symmetric] by (cases "0 < x") simp_all
qed

section \<open>Zero-previous policy of the two growth functions\<close>

text \<open>
  C1 (as stated, refuted): with \<open>previous = 0\<close> the two growth functions would return the
  same value, namely 0, whatever \<open>current\<close> is. At \<open>current = 100\<close> the function of
  \<open>utils\<close> returns 100 and the one of \<open>data_loader\<close> returns 0.
\<close>

theorem C1_counterexample:
  "calculate_percentage_change 100 0 = Fin 100 \<and> calculate_growth 100 0 = Fin 0
   \<and> calculate_percentage_change 100 0 \<noteq> calculate_growth 100 0"
  by (simp add: calculate_percentage_change_def calculate_growth_def)

text \<open>
  C1 (amended): with \<open>previous = 0\<close>, \<open>calculate_growth\<close> returns 0 for every
  \<open>current\<close>; \<open>calculate_percentage_change\<close> returns 0 when \<open>current = 0\<close> and 100
  otherwise; so the two agree at \<open>previous = 0\<close> exactly when \<open>current = 0\<close>.
\<close>

theorem C1_zero_previous:
  "calculate_growth current 0 = Fin 0
   \<and> calculate_percentage_change current 0 = (if current = 0 then Fin 0 else Fin 100)
   \<and> (calculate_percentage_change current 0 = calculate_growth current 0 \<longleftrightarrow> current = 0)"
  by (simp add: calculate_percentage_change_def calculate_growth_def)

theorem C1_zero_previous_witness:
  "calculate_growth 7 0 = Fin 0 \<and> calculate_percentage_change 7 0 = Fin 100
   \<and> calculate_percentage_change 0 0 = calculate_growth 0 0"
  using C1_zero_previous [of 7] C1_zero_previous [of 0] by simp

section \<open>Growth windows\<close>


lemma series_max_Max: "xs \<noteq> [] \<Longrightarrow> series_max xs = Some (Max (set xs))"
proof (induction xs)
  case Nil
  then show ?case by simp
next
  case (Cons x xs)
  show ?case
  proof (cases "xs = []")
    case True
    then show ?thesis by simp
  next
    case False
    with Cons have "series_max xs = Some (Max (set xs))" by simp
    with False show ?thesis by (simp add: max.commute)
  qed
qed

lemma series_max_None: "series_max xs = None \<longleftrightarrow> xs = []"
  by (cases xs) (auto split: option.splits)


lemma mock_row_fields:
  "vehicle_category (mock_row y m c mf n) = c"
  "manufacturer (mock_row y m c mf n) = mf"
  "registrations (mock_row y m c mf n) = n"
  "dt_year (date (mock_row y m c mf n)) = y"
  "dt_month (date (mock_row y m c mf n)) = m"
  by (simp_all add: mock_row_def)





section \<open>Aggregation preserves the total and ignores the row order\<close>

lemma sum_list_single_key:
  fixes v :: "'v::comm_monoid_add"
  shows "distinct ks \<Longrightarrow> a \<in> set ks \<Longrightarrow> (\<Sum>k\<leftarrow>ks. if a = k then v else 0) = v"
proof (induction ks)
  case Nil
  then show ?case by simp
next
  case (Cons k ks)
  show ?case
  proof (cases "a = k")
    case True
    with Cons.prems have "a \<notin> set ks" by simp
    then have "(\<Sum>k\<leftarrow>ks. if a = k then v else 0) = 0"
      by (induction ks) auto
    with True show ?thesis by simp
  next
    case False
    with Cons show ?thesis by simp
  qed
qed

lemma sum_over_groups:
  fixes val :: "'r \<Rightarrow> 'v::comm_monoid_add"
  assumes "distinct ks" and "key ` set df \<subseteq> set ks"
  shows "(\<Sum>k\<leftarrow>ks. sum_list (map val (filter (\<lambda>r. key r = k) df))) = sum_list (map val df)"
  using assms(2)
proof (induction df)
  case Nil
  then show ?case by simp
next
  case (Cons r df)
  have split: "sum_list (map val (filter (\<lambda>x. key x = k) (r # df)))
      = (if key r = k then val r else 0) + sum_list (map val (filter (\<lambda>x. key x = k) df))" for k
    by simp
  have "(\<Sum>k\<leftarrow>ks. sum_list (map val (filter (\<lambda>x. key x = k) (r # df))))
      = (\<Sum>k\<leftarrow>ks. if key r = k then val r else 0)
        + (\<Sum>k\<leftarrow>ks. sum_list (map val (filter (\<lambda>x. key x = k) df)))"
    unfolding split by (rule sum_list_addf)
  also have "(\<Sum>k\<leftarrow>ks. if key r = k then val r else 0) = val r"
    using assms(1) Cons.prems by (intro sum_list_single_key) auto
  also have "(\<Sum>k\<leftarrow>ks. sum_list (map val (filter (\<lambda>x. key x = k) df))) = sum_list (map val df)"
    using Cons by simp
  finally show ?case by simp
qed

lemma groupby_keys_distinct: "distinct (groupby_keys key df)"
  by (simp add: groupby_keys_def)

lemma groupby_keys_set: "set (groupby_keys key df) = key ` set df"
  by (simp add: groupby_keys_def)

lemma groupby_keys_sorted: "sorted (groupby_keys key df)"
  by (simp add: groupby_keys_def)

lemma groupby_sum_total:
  fixes val :: "'r \<Rightarrow> 'v::comm_monoid_add"
  shows "sum_list (map snd (groupby_sum key val df)) = sum_list (map val df)"
proof -
  have "sum_list (map snd (groupby_sum key val df))
      = (\<Sum>k\<leftarrow>groupby_keys key df. sum_list (map val (filter (\<lambda>r. key r = k) df)))"
    by (simp add: groupby_sum_def comp_def)
  also have "\<dots> = sum_list (map val df)"
    by (rule sum_over_groups) (simp_all add: groupby_keys_distinct groupby_keys_set)
  finally show ?thesis .
qed

lemma groupby_keys_mset:
  assumes "mset df' = mset df"
  shows "groupby_keys key df' = groupby_keys key df"
proof -
  have "set df' = set df"
    using assms by (rule mset_eq_setD)
  then have "set (map key df') = set (map key df)" by simp
  then have "sorted_list_of_set (set (map key df')) = sorted_list_of_set (set (map key df))"
    by simp
  then show ?thesis
    by (simp only: groupby_keys_def sorted_list_of_set_sort_remdups)
qed

lemma group_sum_mset:
  fixes val :: "'r \<Rightarrow> 'v::comm_monoid_add"
  assumes "mset df' = mset df"
  shows "sum_list (map val (filter P df')) = sum_list (map val (filter P df))"
proof -
  have "mset (map val (filter P df')) = mset (map val (filter P df))"
    using assms by simp
  then have "sum_mset (mset (map val (filter P df'))) = sum_mset (mset (map val (filter P df)))"
    by simp
  then show ?thesis by (simp only: sum_mset_sum_list)
qed

lemma groupby_sum_mset:
  fixes val :: "'r \<Rightarrow> 'v::comm_monoid_add"
  assumes "mset df' = mset df"
  shows "groupby_sum key val df' = groupby_sum key val df"
  unfolding groupby_sum_def groupby_keys_mset [OF assms]
  by (simp add: group_sum_mset [OF assms])

lemma reg_sum_mset: "mset df' = mset df \<Longrightarrow> reg_sum df' = reg_sum df"
  unfolding reg_sum_def using group_sum_mset [of df' df registrations "\<lambda>r. True"] by simp

text \<open>
  C9: the sums of the groups of a group-by-sum add up to the sum of the summed column
  over all records, whatever the grouping key, and the aggregation of a collection is the
  aggregation of each of its permutations. Both hold for the grouping of
  \<open>calculate_market_share\<close> (any column as key) and for the month-and-category grouping of
  \<open>create_trend_chart\<close>; the summed values may be of any commutative monoid, so the
  counts may be read as exact integers or as 64-bit integers that wrap.
\<close>

theorem C9_aggregation_total_and_order:
  fixes val :: "'r \<Rightarrow> 'v::comm_monoid_add" and key :: "'r \<Rightarrow> 'k::linorder"
  shows "sum_list (map snd (groupby_sum key val rs)) = sum_list (map val rs)
    \<and> (\<forall>rs'. mset rs' = mset rs \<longrightarrow> groupby_sum key val rs' = groupby_sum key val rs)
    \<and> sum_list (map snd (create_trend_chart df)) = reg_sum df
    \<and> (\<forall>df'. mset df' = mset df \<longrightarrow> create_trend_chart df' = create_trend_chart df)"
proof (intro conjI allI impI)
  show "sum_list (map snd (groupby_sum key val rs)) = sum_list (map val rs)"
    by (rule groupby_sum_total)
  show "groupby_sum key val rs' = groupby_sum key val rs" if "mset rs' = mset rs" for rs'
    using that by (rule groupby_sum_mset)
  show "sum_list (map snd (create_trend_chart df)) = reg_sum df"
    unfolding create_trend_chart_def reg_sum_def by (rule groupby_sum_total)
  show "create_trend_chart df' = create_trend_chart df" if "mset df' = mset df" for df'
    unfolding create_trend_chart_def using that by (rule groupby_sum_mset)
qed

theorem C9_aggregation_total_and_order_witness:
  "create_trend_chart two_month_rows
     = [(((2024, 1), ''A''), 100), (((2024, 1), ''B''), 200), (((2024, 2), ''A''), 157), (((2024, 2), ''B''), 100)]
   \<and> sum_list (map snd (create_trend_chart two_month_rows)) = 557
   \<and> reg_sum two_month_rows = 557
   \<and> mset (rev two_month_rows) = mset two_month_rows
   \<and> create_trend_chart (rev two_month_rows) = create_trend_chart two_month_rows
   \<and> groupby_sum manufacturer registrations (rev two_month_rows) = [(''Honda'', 250), (''Kia'', 307)]"
proof -
  have chart: "create_trend_chart two_month_rows
     = [(((2024, 1), ''A''), 100), (((2024, 1), ''B''), 200), (((2024, 2), ''A''), 157), (((2024, 2), ''B''), 100)]"
    by (simp add: two_month_rows_def create_trend_chart_def groupby_sum_def groupby_keys_def mock_row_fields)
  have total: "reg_sum two_month_rows = 557"
    by (simp add: two_month_rows_def reg_sum_def mock_row_fields)
  have perm: "mset (rev two_month_rows) = mset two_month_rows"
    by simp
  have man: "groupby_sum manufacturer registrations two_month_rows = [(''Honda'', 250), (''Kia'', 307)]"
    by (simp add: two_month_rows_def groupby_sum_def groupby_keys_def mock_row_fields)
  note inst = C9_aggregation_total_and_order [of manufacturer registrations two_month_rows two_month_rows]
  from inst have a: "sum_list (map snd (create_trend_chart two_month_rows)) = reg_sum two_month_rows"
    by (elim conjE)
  from inst perm have b: "create_trend_chart (rev two_month_rows) = create_trend_chart two_month_rows"
    by blast
  from inst perm
  have c: "groupby_sum manufacturer registrations (rev two_month_rows) = groupby_sum manufacturer registrations two_month_rows"
    by blast
  show ?thesis
    unfolding c b a man chart total using perm by simp
qed

section \<open>Market share\<close>

lemma sorted_wrt_all: "(\<And>x y. x \<in> set xs \<Longrightarrow> y \<in> set xs \<Longrightarrow> P x y) \<Longrightarrow> sorted_wrt P xs"
  by (induction xs) auto

lemma sort_values_desc_mset: "mset (sort_values_desc key isna xs) = mset xs"
  by (simp add: sort_values_desc_def union_commute)

lemma sort_values_desc_set: "set (sort_values_desc key isna xs) = set xs"
  using sort_values_desc_mset [of key isna xs] by (rule mset_eq_setD)

lemma sort_values_desc_sorted:
  "sorted_wrt (\<lambda>a b. isna b \<or> (\<not> isna a \<and> key b \<le> key a)) (sort_values_desc key isna xs)"
proof -
  let ?S = "sort_key key (rev (filter (\<lambda>x. \<not> isna x) xs))"
  let ?P = "\<lambda>a b. isna b \<or> (\<not> isna a \<and> key b \<le> key a)"
  have "sorted (map key ?S)" by simp
  then have "sorted_wrt (\<lambda>a b. key a \<le> key b) ?S"
    by (simp add: sorted_map)
  then have "sorted_wrt (\<lambda>a b. ?P b a) ?S"
    by (rule sorted_wrt_mono_rel [rotated]) auto
  then have sorted_front: "sorted_wrt ?P (rev ?S)"
    by (simp add: sorted_wrt_rev)
  have sorted_back: "sorted_wrt ?P (filter isna xs)"
    by (rule sorted_wrt_all) simp
  show ?thesis
    unfolding sort_values_desc_def sorted_wrt_append
    using sorted_front sorted_back by simp
qed

lemma calculate_market_share_grouping:
  "calculate_market_share df group_by =
     (case grouping group_by of
        None \<Rightarrow> Inl KeyError
      | Some key \<Rightarrow>
          Inr (sort_values_desc (\<lambda>p. fval_key (snd p)) (\<lambda>p. snd p = NaN)
                 (map (\<lambda>(k, s). (k, np_round 2 (fmul (fdiv (to_float s) (to_float (reg_sum df))) (Fin 100))))
                      (groupby_sum key registrations df))))"
  by (simp add: calculate_market_share_def grouping_def Let_def split: option.splits)

lemma groupby_sum_fst: "map fst (groupby_sum key val df) = groupby_keys key df"
  by (simp add: groupby_sum_def comp_def)

text \<open>
  C4 (as stated, refuted): entities with equal percentages would come in the order of
  their first appearance in the input. Two manufacturers with 50 per cent each come out
  in the order of their names, whichever of them the input lists first.
\<close>

theorem C4_counterexample:
  "unique (map manufacturer tied_rows) = [''Zeta'', ''Alpha'']
   \<and> calculate_market_share tied_rows ''manufacturer'' = Inr [(CStr ''Alpha'', Fin 50), (CStr ''Zeta'', Fin 50)]
   \<and> calculate_market_share (rev tied_rows) ''manufacturer'' = Inr [(CStr ''Alpha'', Fin 50), (CStr ''Zeta'', Fin 50)]"
  by (simp add: tied_rows_def calculate_market_share_def groupby_sum_def groupby_keys_def
      mock_row_fields reg_sum_def sort_values_desc_def unique_def less_eq_cell_def float_eval)

lemma calculate_market_share_mset:
  assumes "mset df' = mset df"
  shows "calculate_market_share df' group_by = calculate_market_share df group_by"
  unfolding calculate_market_share_grouping
  by (cases "grouping group_by") (simp_all add: groupby_sum_mset [OF assms] reg_sum_mset [OF assms])

text \<open>
  C4 (amended): for every collection and every \<open>group_by\<close> that selects a column, the
  result has one entry for each distinct entity; its value is the entity's summed
  registrations divided by the grand total, multiplied by 100 and rounded to 2 decimals,
  each of the three steps in binary64 (NaN or an infinity when the grand total is zero);
  the entries are in descending order of that value, NaN entries last; and the result is
  the same for every reordering of the input rows, so the place of an entity among equal
  percentages does not follow its first appearance in the input.
\<close>

theorem C4_market_share:
  assumes "grouping group_by = Some key"
  shows "\<exists>ps. calculate_market_share df group_by = Inr ps
     \<and> distinct (map fst ps) \<and> set (map fst ps) = key ` set df
     \<and> (\<forall>(k, v) \<in> set ps.
           v = fdiv (rint (fmul (fmul (fdiv (float64 (of_int (sum_list (map registrations (filter (\<lambda>r. key r = k) df)))))
                                          (float64 (of_int (sum_list (map registrations df)))))
                                    (Fin 100))
                              (Fin 100)))
                    (Fin 100))
     \<and> sorted_wrt descending (map snd ps)
     \<and> (\<forall>df'. mset df' = mset df \<longrightarrow>
           calculate_market_share df' group_by = calculate_market_share df group_by)"
proof -
  define pct where "pct = (\<lambda>s. np_round 2 (fmul (fdiv (to_float s) (to_float (reg_sum df))) (Fin 100)))"
  define shares where "shares = map (\<lambda>(k, s). (k, pct s)) (groupby_sum key registrations df)"
  define ps where "ps = sort_values_desc (\<lambda>p. fval_key (snd p)) (\<lambda>p. snd p = NaN) shares"
  have res: "calculate_market_share df group_by = Inr ps"
    unfolding calculate_market_share_grouping assms ps_def shares_def pct_def by simp
  have keys: "map fst shares = groupby_keys key df"
    unfolding shares_def by (simp add: groupby_sum_def comp_def)
  have "mset (map fst ps) = mset (map fst shares)"
    unfolding ps_def by (simp add: sort_values_desc_mset)
  then have d: "distinct (map fst ps)" and s: "set (map fst ps) = key ` set df"
    using keys groupby_keys_distinct [of key df] groupby_keys_set [of key df]
    by (metis mset_eq_imp_distinct_iff, metis mset_eq_setD)
  have val: "v = pct (sum_list (map registrations (filter (\<lambda>r. key r = k) df)))" if "(k, v) \<in> set ps" for k v
  proof -
    from that have "(k, v) \<in> set shares"
      unfolding ps_def by (simp add: sort_values_desc_set)
    then show ?thesis
      unfolding shares_def groupby_sum_def by auto
  qed
  have "sorted_wrt (\<lambda>a b. snd b = NaN \<or> (snd a \<noteq> NaN \<and> fval_key (snd b) \<le> fval_key (snd a))) ps"
    unfolding ps_def by (rule sort_values_desc_sorted)
  then have srt: "sorted_wrt descending (map snd ps)"
    by (simp add: sorted_wrt_map descending_def)
  have perm: "calculate_market_share df' group_by = calculate_market_share df group_by"
    if "mset df' = mset df" for df'
    using that by (rule calculate_market_share_mset)
  show ?thesis
  proof (intro exI [of _ ps] conjI)
    show "\<forall>(k, v) \<in> set ps.
           v = fdiv (rint (fmul (fmul (fdiv (float64 (of_int (sum_list (map registrations (filter (\<lambda>r. key r = k) df)))))
                                          (float64 (of_int (sum_list (map registrations df)))))
                                    (Fin 100))
                              (Fin 100)))
                    (Fin 100)"
      using val unfolding pct_def np_round_def to_float_def reg_sum_def by auto
    show "\<forall>df'. mset df' = mset df \<longrightarrow>
           calculate_market_share df' group_by = calculate_market_share df group_by"
      by (intro allI impI) (rule perm)
  qed (rule res d s srt)+
qed

theorem C4_market_share_witness:
  "grouping ''manufacturer'' = Some (\<lambda>r. CStr (manufacturer r))
   \<and> calculate_market_share share_rows ''manufacturer'' =
       Inr [(CStr ''Beta'', Fin (753121484561449 / 8796093022208)), (CStr ''Alpha'', Fin (8089590830664253 / 562949953421312))]
   \<and> float64 (8562 / 100) = Fin (753121484561449 / 8796093022208)
   \<and> float64 (1437 / 100) = Fin (8089590830664253 / 562949953421312)
   \<and> float64 (23 / 160) = Fin (2589569785738035 / 18014398509481984)
   \<and> fmul (Fin (2589569785738035 / 18014398509481984)) (Fin 100) = Fin (8092405580431359 / 562949953421312)
   \<and> 8092405580431359 / 562949953421312 < (14375 / 1000 :: rat)
   \<and> calculate_market_share (rev share_rows) ''manufacturer'' = calculate_market_share share_rows ''manufacturer''"
proof -
  have g: "grouping ''manufacturer'' = Some (\<lambda>r. CStr (manufacturer r))"
    by (simp add: grouping_def)
  have e: "calculate_market_share share_rows ''manufacturer'' =
       Inr [(CStr ''Beta'', Fin (753121484561449 / 8796093022208)), (CStr ''Alpha'', Fin (8089590830664253 / 562949953421312))]"
    by (simp add: share_rows_def calculate_market_share_def groupby_sum_def groupby_keys_def
      mock_row_fields reg_sum_def sort_values_desc_def less_eq_cell_def float_eval)
  have f: "float64 (8562 / 100) = Fin (753121484561449 / 8796093022208)"
    "float64 (1437 / 100) = Fin (8089590830664253 / 562949953421312)"
    "float64 (23 / 160) = Fin (2589569785738035 / 18014398509481984)"
    "fmul (Fin (2589569785738035 / 18014398509481984)) (Fin 100) = Fin (8092405580431359 / 562949953421312)"
    by (simp_all add: float_eval)
  have l: "8092405580431359 / 562949953421312 < (14375 / 1000 :: rat)"
    by simp
  have p: "mset (rev share_rows) = mset share_rows"
    by simp
  from C4_market_share [OF g, of share_rows] p
  have "calculate_market_share (rev share_rows) ''manufacturer'' = calculate_market_share share_rows ''manufacturer''"
    by blast
  with g e f l show ?thesis by simp
qed

section \<open>Growth leaders\<close>







lemma entity_growth_empty_previous: "concat (map (entity_growth ty col cur []) names) = []"
  by (induction names) (simp_all add: entity_growth_def reg_sum_def)

lemma identify_growth_leaders_periods:
  assumes "growth_periods df period = Some (cur, prev)"
  shows "identify_growth_leaders df period =
     (let growth_leaders =
            concat (map (entity_growth ''Manufacturer'' manufacturer cur prev) (unique (map manufacturer df)))
            @ concat (map (entity_growth ''Category'' vehicle_category cur prev) (unique (map vehicle_category df)))
      in if growth_leaders = [] then Inl KeyError
         else Inr (sort_values_desc (\<lambda>l. fval_key (Growth_Rate l)) (\<lambda>l. Growth_Rate l = NaN) growth_leaders))"
  by (simp add: identify_growth_leaders_def assms)



lemma mock_row_quarter: "dt_quarter (date (mock_row y m c mf n)) = (m - 1) div 3 + 1"
  by (simp add: mock_row_def dt_quarter_def)



section \<open>Quarter-over-quarter leaders when the latest records are in a first quarter\<close>

lemma series_max_in: "series_max xs = Some m \<Longrightarrow> m \<in> set xs"
proof -
  assume a: "series_max xs = Some m"
  then have ne: "xs \<noteq> []" by (cases xs) simp_all
  from series_max_Max [OF ne] a have "m = Max (set xs)" by simp
  then show ?thesis using ne by simp
qed

text \<open>
  The two windows of the quarter-over-quarter comparison as the program takes them: the
  year is the latest year of the collection, the quarter number the greatest quarter
  number of all records, whatever their year.
\<close>

lemma growth_periods_qoq:
  "growth_periods df ''QoQ'' =
     Some (filter (\<lambda>r. dt_year (date r) = Max (set (map (\<lambda>r. dt_year (date r)) df))
                      \<and> dt_quarter (date r) = Max (set (map (\<lambda>r. dt_quarter (date r)) df))) df,
           filter (\<lambda>r. dt_year (date r) = Max (set (map (\<lambda>r. dt_year (date r)) df))
                      \<and> dt_quarter (date r) = Max (set (map (\<lambda>r. dt_quarter (date r)) df)) - 1) df)"
proof (cases "df = []")
  case True
  then show ?thesis by (simp add: growth_periods_def)
next
  case False
  then have "series_max (map (\<lambda>r. dt_year (date r)) df) = Some (Max (set (map (\<lambda>r. dt_year (date r)) df)))"
    and "series_max (map (\<lambda>r. dt_quarter (date r)) df) = Some (Max (set (map (\<lambda>r. dt_quarter (date r)) df)))"
    by (simp_all add: series_max_Max)
  then show ?thesis
    by (simp add: growth_periods_def eq_bound_def Let_def)
qed

text \<open>
  When every record of the collection lies in a first quarter, the previous window of
  the quarter-over-quarter comparison is quarter 0 of the latest year, which is empty, and
  the call fails.
\<close>

lemma qoq_first_quarters_only:
  assumes "\<And>r. r \<in> set df \<Longrightarrow> dt_quarter (date r) = 1"
  shows "identify_growth_leaders df ''QoQ'' = Inl KeyError"
proof -
  obtain cur prev where gp: "growth_periods df ''QoQ'' = Some (cur, prev)"
    and prev: "prev = filter (\<lambda>r. eq_bound (dt_year (date r)) (series_max (map (\<lambda>r. dt_year (date r)) df))
                 \<and> eq_bound (dt_quarter (date r))
                      (map_option (\<lambda>q. q - 1) (series_max (map (\<lambda>r. dt_quarter (date r)) df)))) df"
    by (simp add: growth_periods_def Let_def)
  have "\<not> eq_bound (dt_quarter (date r))
            (map_option (\<lambda>q. q - 1) (series_max (map (\<lambda>r. dt_quarter (date r)) df)))"
    if "r \<in> set df" for r
  proof (cases "series_max (map (\<lambda>r. dt_quarter (date r)) df)")
    case None
    then show ?thesis by (simp add: eq_bound_def)
  next
    case (Some q)
    then have "q \<in> set (map (\<lambda>r. dt_quarter (date r)) df)" by (rule series_max_in)
    then have "q = 1" using assms by auto
    then show ?thesis using Some assms [OF that] by (simp add: eq_bound_def)
  qed
  then have "prev = []"
    unfolding prev by (simp add: filter_empty_conv)
  then show ?thesis
    unfolding identify_growth_leaders_periods [OF gp]
    by (simp add: entity_growth_empty_previous)
qed

text \<open>
  The quarter before the first one is not looked for in the year before: with a record in
  October 2023 and one in January 2024 both windows are empty and the call fails.
\<close>

lemma qoq_no_wrap:
  "growth_periods fourth_quarter_rows ''QoQ'' = Some ([], [])
   \<and> identify_growth_leaders fourth_quarter_rows ''QoQ'' = Inl KeyError"
  by (simp add: identify_growth_leaders_def growth_periods_def fourth_quarter_rows_def eq_bound_def
      mock_row_fields mock_row_quarter unique_def entity_growth_def reg_sum_def Let_def)

text \<open>
  C10: by the claim the call fails whenever the latest records fall in the first quarter
  of a year, the previous window being empty. With one record in April 2023 and one in
  January 2024 the latest records are in the first quarter of 2024, but the quarter that
  \<open>identify_growth_leaders\<close> takes as the current one is the greatest quarter number of
  all years, 2: its current window is the second quarter of 2024, which is empty, its
  previous window is the first quarter of 2024, which holds the January record, and it
  returns a ranking with growth -100 instead of failing.
\<close>

theorem C10_first_quarter_returns_ranking:
  "map (\<lambda>r. (dt_year (date r), dt_quarter (date r))) second_quarter_rows = [(2023, 2), (2024, 1)]
   \<and> series_max (map (\<lambda>r. dt_year (date r)) second_quarter_rows) = Some 2024
   \<and> series_max (map (\<lambda>r. dt_quarter (date r)) second_quarter_rows) = Some 2
   \<and> growth_periods second_quarter_rows ''QoQ'' = Some ([], [mock_row 2024 1 ''2W'' ''X'' 20])
   \<and> identify_growth_leaders second_quarter_rows ''QoQ'' =
       Inr [\<lparr>Type = ''Manufacturer'', Name = ''X'', Current = 0, Previous = 20, Growth_Rate = Fin (- 100)\<rparr>,
            \<lparr>Type = ''Category'', Name = ''2W'', Current = 0, Previous = 20, Growth_Rate = Fin (- 100)\<rparr>]"
  by (simp add: identify_growth_leaders_def growth_periods_def second_quarter_rows_def eq_bound_def
      mock_row_fields mock_row_quarter unique_def entity_growth_def reg_sum_def
      calculate_percentage_change_def sort_values_desc_def float_eval)

section \<open>Writes to the shared collection\<close>

lemma str_nat_digit: "n < 10 \<Longrightarrow> str_nat n = [digit_char n]"
  by (simp add: str_nat.simps)

lemma str_int_2024: "str_int 2024 = ''2024''"
  by (simp add: str_int_def str_nat.simps [of 2024] str_nat.simps [of 202] str_nat.simps [of 20]
      str_nat_digit digit_char_def)

lemma str_int_1: "str_int 1 = ''1''"
  by (simp add: str_int_def str_nat_digit digit_char_def)

text \<open>
  C3 (as stated, refuted): after each of the three operations the collection that the
  caller holds would be the one it passed. On a frame with one January record, as loaded,
  \<open>get_seasonal_patterns\<close> and \<open>create_heatmap_analysis\<close> leave it with a \<open>month\<close> column,
  and \<open>create_quarterly_comparison\<close> with a \<open>year_quarter\<close> column and with the text of
  its \<open>quarter\<close> column replaced by the quarter number.
\<close>

theorem C3_counterexample:
  "month january_frame = None
   \<and> month (snd (get_seasonal_patterns january_frame)) = Some [1]
   \<and> month (snd (create_heatmap_analysis january_frame)) = Some [1]
   \<and> year_quarter january_frame = None
   \<and> year_quarter (snd (create_quarterly_comparison january_frame)) = Some [''2024-Q1'']
   \<and> map quarter (rows january_frame) = [CStr ''2024-Q1'']
   \<and> map quarter (rows (snd (create_quarterly_comparison january_frame))) = [CInt 1]
   \<and> snd (get_seasonal_patterns january_frame) \<noteq> january_frame
   \<and> snd (create_heatmap_analysis january_frame) \<noteq> january_frame
   \<and> snd (create_quarterly_comparison january_frame) \<noteq> january_frame"
proof -
  have a: "month january_frame = None" and b: "year_quarter january_frame = None"
    by (simp_all add: january_frame_def)
  have c: "month (snd (get_seasonal_patterns january_frame)) = Some [1]"
    by (simp add: get_seasonal_patterns_def january_frame_def Let_def mock_row_fields)
  have d: "month (snd (create_heatmap_analysis january_frame)) = Some [1]"
    by (simp add: create_heatmap_analysis_def january_frame_def Let_def mock_row_fields)
  have e: "year_quarter (snd (create_quarterly_comparison january_frame)) = Some [''2024-Q1'']"
    by (simp add: create_quarterly_comparison_def january_frame_def Let_def mock_row_fields
        mock_row_quarter str_int_2024 str_int_1)
  have f: "map quarter (rows january_frame) = [CStr ''2024-Q1'']"
    by (simp add: january_frame_def mock_row_def str_int_2024 str_int_1)
  have g: "map quarter (rows (snd (create_quarterly_comparison january_frame))) = [CInt 1]"
    by (simp add: create_quarterly_comparison_def january_frame_def Let_def mock_row_quarter)
  from a c have h: "snd (get_seasonal_patterns january_frame) \<noteq> january_frame" by auto
  from a d have i: "snd (create_heatmap_analysis january_frame) \<noteq> january_frame" by auto
  from b e have j: "snd (create_quarterly_comparison january_frame) \<noteq> january_frame" by auto
  from a b c d e f g h i j show ?thesis by simp
qed

text \<open>
  C3 (amended): each of the three operations assigns derived columns on the collection it
  is given. \<open>get_seasonal_patterns\<close> and \<open>create_heatmap_analysis\<close> set its \<open>month\<close>
  column to the month numbers of the records; \<open>create_quarterly_comparison\<close> replaces its
  \<open>quarter\<close> column by the quarter numbers and sets its \<open>year_quarter\<close> column. The
  records, their order and all their other fields stay as they were.
\<close>

theorem C3_writes_derived_columns:
  "snd (get_seasonal_patterns f) = f\<lparr>month := Some (map (\<lambda>r. dt_month (date r)) (rows f))\<rparr>
   \<and> snd (create_heatmap_analysis f) = f\<lparr>month := Some (map (\<lambda>r. dt_month (date r)) (rows f))\<rparr>
   \<and> snd (create_quarterly_comparison f) =
       f\<lparr>rows := map (\<lambda>r. r\<lparr>quarter := CInt (dt_quarter (date r))\<rparr>) (rows f),
         year_quarter := Some (map (\<lambda>r. str_int (dt_year (date r)) @ ''-Q'' @ str_int (dt_quarter (date r))) (rows f))\<rparr>
   \<and> rows (snd (get_seasonal_patterns f)) = rows f
   \<and> rows (snd (create_heatmap_analysis f)) = rows f
   \<and> map (\<lambda>r. r\<lparr>quarter := c\<rparr>) (rows (snd (create_quarterly_comparison f))) = map (\<lambda>r. r\<lparr>quarter := c\<rparr>) (rows f)
   \<and> month (snd (create_quarterly_comparison f)) = month f
   \<and> year_quarter (snd (get_seasonal_patterns f)) = year_quarter f
   \<and> year_quarter (snd (create_heatmap_analysis f)) = year_quarter f"
  by (simp add: get_seasonal_patterns_def create_heatmap_analysis_def create_quarterly_comparison_def
      Let_def comp_def)

theorem C3_writes_derived_columns_witness:
  "snd (get_seasonal_patterns january_frame) = january_frame\<lparr>month := Some [1]\<rparr>
   \<and> rows (snd (create_heatmap_analysis january_frame)) = [mock_row 2024 1 ''2W'' ''Honda'' 10]
   \<and> map registrations (rows (snd (create_quarterly_comparison january_frame))) = [10]"
proof -
  note inst = C3_writes_derived_columns [of january_frame "CInt 0"]
  from inst have "snd (get_seasonal_patterns january_frame) = january_frame\<lparr>month := Some [1]\<rparr>"
    by (simp add: january_frame_def mock_row_fields)
  moreover from inst have "rows (snd (create_heatmap_analysis january_frame)) = [mock_row 2024 1 ''2W'' ''Honda'' 10]"
    by (simp add: january_frame_def)
  moreover have "map registrations (rows (snd (create_quarterly_comparison january_frame))) = [10]"
  proof -
    from inst have "map (\<lambda>r. r\<lparr>quarter := CInt 0\<rparr>) (rows (snd (create_quarterly_comparison january_frame)))
        = map (\<lambda>r. r\<lparr>quarter := CInt 0\<rparr>) (rows january_frame)"
      by (elim conjE)
    then have "map registrations (map (\<lambda>r. r\<lparr>quarter := CInt 0\<rparr>) (rows (snd (create_quarterly_comparison january_frame))))
        = map registrations (map (\<lambda>r. r\<lparr>quarter := CInt 0\<rparr>) (rows january_frame))"
      by (rule arg_cong)
    then show ?thesis
      by (simp add: comp_def january_frame_def mock_row_fields)
  qed
  ultimately show ?thesis by simp
qed

section \<open>Seasonal patterns under partial coverage\<close>

lemma groupby_mean_length: "length (groupby_mean key val df) = card (key ` set df)"
  by (simp add: groupby_mean_def groupby_keys_def length_remdups_card_conv)

lemma zip_map_self: "zip (map g rs) rs = map (\<lambda>r. (g r, r)) rs"
  by (induction rs) simp_all

lemma seasonal_months_present:
  "fst ` set (zip (map g rs) rs) = g ` set rs"
  by (simp add: zip_map_self image_image)

text \<open>
  C5: the claim asks for one entry for each calendar month that has records, a month
  without records giving no entry. \<open>get_seasonal_patterns\<close> pairs the twelve month names
  with the values of the months that occur, so whenever the records do not cover exactly
  twelve distinct months it raises \<open>ValueError\<close> and returns no table at all.
\<close>

theorem C5_partial_coverage_raises:
  assumes "card ((\<lambda>r. dt_month (date r)) ` set (rows f)) \<noteq> 12"
  shows "fst (get_seasonal_patterns f) = Inl ValueError"
  using assms
  by (simp add: get_seasonal_patterns_def Let_def groupby_mean_length seasonal_months_present
      month_names_def)

theorem C5_partial_coverage_raises_witness:
  "fst (get_seasonal_patterns january_frame) = Inl ValueError"
  using C5_partial_coverage_raises [of january_frame]
  by (simp add: january_frame_def mock_row_fields)


lemma seasonal_keys:
  assumes "(\<lambda>r. dt_month (date r)) ` set rs = {1..12}"
  shows "groupby_keys fst (zip (map (\<lambda>r. dt_month (date r)) rs) rs) = [1..12]"
proof -
  have "map fst (zip (map (\<lambda>r. dt_month (date r)) rs) rs) = map (\<lambda>r. dt_month (date r)) rs"
    by (simp add: zip_map_self comp_def)
  then have "set (groupby_keys fst (zip (map (\<lambda>r. dt_month (date r)) rs) rs)) = set [1..12]"
    using assms by (simp add: groupby_keys_def)
  moreover have "sorted (groupby_keys fst (zip (map (\<lambda>r. dt_month (date r)) rs) rs))"
    "distinct (groupby_keys fst (zip (map (\<lambda>r. dt_month (date r)) rs) rs))"
    by (simp_all add: groupby_keys_def)
  ultimately show ?thesis
    by (intro sorted_distinct_set_unique) simp_all
qed

lemma seasonal_monthly_avg:
  assumes "(\<lambda>r. dt_month (date r)) ` set rs = {1..12}"
  shows "groupby_mean fst (\<lambda>p. registrations (snd p)) (zip (map (\<lambda>r. dt_month (date r)) rs) rs)
         = map (\<lambda>k. (k, fdiv (to_float (sum_list (map registrations (filter (\<lambda>r. dt_month (date r) = k) rs))))
                              (to_float (int (length (filter (\<lambda>r. dt_month (date r) = k) rs))))))
               [1..12]"
  unfolding groupby_mean_def seasonal_keys [OF assms]
  by (simp add: zip_map_self filter_map comp_def)

lemma upto_1_12: "[1..12] = [1, 2, 3, 4, 5, 6, 7, 8, 9, 10, 11, 12::int]"
  by code_simp

text \<open>
  When the records cover all twelve calendar months, the table has one row for each
  month, in calendar order. The records of a month are pooled over the years: the row
  holds their mean registrations per record, and that mean divided by the mean of the
  twelve monthly means, times 100, rounded to one decimal.
\<close>

lemma seasonal_full_coverage:
  assumes "(\<lambda>r. dt_month (date r)) ` set (rows f) = {1..12}"
  shows "let mean = (\<lambda>m. fdiv (to_float (sum_list (map registrations (filter (\<lambda>r. dt_month (date r) = m) (rows f)))))
                              (to_float (int (length (filter (\<lambda>r. dt_month (date r) = m) (rows f))))));
             overall = series_mean (map mean [1..12])
         in fst (get_seasonal_patterns f) =
              Inr (map (\<lambda>m. \<lparr>Month = month_names ! nat (m - 1), Average_Registrations = mean m,
                              Seasonal_Index = np_round 1 (fmul (fdiv (mean m) overall) (Fin 100))\<rparr>)
                       [1..12])"
  unfolding get_seasonal_patterns_def Let_def
  by (simp add: seasonal_monthly_avg [OF assms] upto_1_12 month_names_def comp_def)

text \<open>With the same volume in every month, every index is 100.\<close>

lemma seasonal_uniform:
  "fst (get_seasonal_patterns uniform_frame) =
     Inr (map (\<lambda>n. \<lparr>Month = n, Average_Registrations = Fin 7, Seasonal_Index = Fin 100\<rparr>) month_names)"
proof -
  have "(\<lambda>r. dt_month (date r)) ` set (rows uniform_frame) = set [1..12]"
    unfolding upto_1_12 by (auto simp: uniform_frame_def mock_row_fields)
  then have cover: "(\<lambda>r. dt_month (date r)) ` set (rows uniform_frame) = {1..12}"
    by simp
  have mean: "fdiv (to_float 7) (to_float 1) = Fin 7" "fdiv (to_float 14) (to_float 2) = Fin 7"
    by (simp_all add: float_eval)
  have overall: "series_mean [Fin 7, Fin 7, Fin 7, Fin 7, Fin 7, Fin 7, Fin 7, Fin 7, Fin 7, Fin 7, Fin 7, Fin 7] = Fin 7"
    by (simp add: series_mean_def np_sum_def float_eval)
  show ?thesis
    using seasonal_full_coverage [OF cover] unfolding Let_def
    by (simp add: upto_1_12 uniform_frame_def mock_row_fields mean overall month_names_def float_eval)
qed

section \<open>Formatting layer\<close>

lemma round_half_even_ge:
  assumes "of_int k \<le> z"
  shows "k \<le> round_half_even z"
proof -
  have "z - 1 / 2 \<le> of_int (round_half_even z)"
    using round_half_even_error [of z] by linarith
  with assms have "(of_int k :: rat) - 1 < of_int (round_half_even z)"
    by simp
  then have "(of_int (k - 1) :: rat) < of_int (round_half_even z)"
    by simp
  then have "k - 1 < round_half_even z"
    by (simp only: of_int_less_iff)
  then show ?thesis by simp
qed

text \<open>
  Rounding does not go below a power of two that the exact value has reached; so the
  binary64 value of a number from 1 on is at least 1 or infinite, and that of a number
  from \<open>2 ^ 1024\<close> on is infinite.
\<close>

lemma float64_ge_pow2:
  assumes "pow2 k \<le> x" and "- 1022 \<le> k"
  shows "float64 x = PInf \<or> (\<exists>y. float64 x = Fin y \<and> pow2 k \<le> y \<and> y < pow2 1024)"
proof -
  have "0 < pow2 k" by (rule pow2_pos)
  with assms(1) have x: "x \<noteq> 0" "0 < x" "\<bar>x\<bar> = x" by simp_all
  define e0 where "e0 = exponent x"
  have b: "pow2 e0 \<le> x" "x < pow2 (e0 + 1)"
    using exponent_bounds [OF x(2)] unfolding e0_def by simp_all
  have "pow2 k < pow2 (e0 + 1)" using assms(1) b(2) by simp
  then have "\<not> e0 + 1 \<le> k" using pow2_mono [of "e0 + 1" k] by auto
  then have lo: "k \<le> e0" by simp
  then have e: "max e0 (- 1022) = e0" using assms(2) by simp
  let ?u = "pow2 (e0 - 52)"
  have u: "0 < ?u" by (rule pow2_pos)
  have split: "pow2 e0 = 2 ^ 52 * ?u"
  proof -
    have "e0 = 52 + (e0 - 52)" by simp
    then have "pow2 e0 = pow2 (52 + (e0 - 52))" by (rule arg_cong)
    also have "\<dots> = pow2 52 * ?u" by (rule pow2_add)
    also have "pow2 52 = 2 ^ 52" by (simp add: pow2_def)
    finally show ?thesis .
  qed
  have "2 ^ 52 * ?u \<le> x" using b(1) unfolding split .
  then have "of_int (2 ^ 52) \<le> x / ?u" using u by (simp add: field_simps)
  then have "2 ^ 52 \<le> round_half_even (x / ?u)" by (rule round_half_even_ge)
  then have "(of_int (2 ^ 52) :: rat) \<le> of_int (round_half_even (x / ?u))"
    by (simp only: of_int_le_iff)
  then have "of_int (2 ^ 52) * ?u \<le> of_int (round_half_even (x / ?u)) * ?u"
    using u by (intro mult_right_mono) simp_all
  then have "pow2 e0 \<le> of_int (round_half_even (x / ?u)) * ?u"
    unfolding split by simp
  moreover have "pow2 k \<le> pow2 e0" using lo by (rule pow2_mono)
  ultimately have y: "pow2 k \<le> of_int (round_half_even (x / ?u)) * ?u"
    by simp
  show ?thesis
    using x y unfolding float64_def Let_def x(3) e0_def [symmetric] e by simp
qed

lemma float64_ge_one:
  assumes "1 \<le> x"
  shows "float64 x = PInf \<or> (\<exists>y. float64 x = Fin y \<and> 1 \<le> y)"
  using float64_ge_pow2 [of 0 x] assms by (auto simp: pow2_def)

lemma float64_overflow:
  assumes "pow2 1024 \<le> x"
  shows "float64 x = PInf" and "float64 (- x) = NInf"
proof -
  from float64_ge_pow2 [OF assms] show "float64 x = PInf" by auto
  then show "float64 (- x) = NInf" by (simp add: float64_minus)
qed

lemma fmt_1f_minus: "0 < y \<Longrightarrow> fmt_1f (Fin (- y)) = ''-'' @ fmt_1f (Fin y)"
  by (simp add: Let_def)

lemma fmt_comma_0f_minus: "0 < y \<Longrightarrow> fmt_comma_0f (Fin (- y)) = ''-'' @ fmt_comma_0f (Fin y)"
  by simp

text \<open>The quotient of a number of magnitude at least \<open>c\<close> by \<open>c\<close>, in one decimal, changes its sign with the number.\<close>

lemma fmt_1f_quotient_minus:
  assumes "of_int c \<le> x" and "0 < c"
  shows "fmt_1f (float64 (- x / of_int c)) = ''-'' @ fmt_1f (float64 (x / of_int c))"
proof -
  have "1 \<le> x / of_int c" using assms by simp
  from float64_ge_one [OF this] show ?thesis
  proof
    assume "float64 (x / of_int c) = PInf"
    then show ?thesis using float64_minus [of "x / of_int c"] by simp
  next
    assume "\<exists>y. float64 (x / of_int c) = Fin y \<and> 1 \<le> y"
    then obtain y where y: "float64 (x / of_int c) = Fin y" "1 \<le> y" by blast
    then have "float64 (- x / of_int c) = Fin (- y)"
      using float64_minus [of "x / of_int c"] by simp
    with y show ?thesis by (simp add: Let_def)
  qed
qed

lemma to_float_constants:
  "to_float 10000000 = Fin 10000000" "to_float 100000 = Fin 100000" "to_float 1000 = Fin 1000"
  by (simp_all add: to_float_exact)

lemma format_number_float:
  assumes "x \<noteq> 0"
  shows "format_number (PyFloat (Fin x)) =
     Inr (if \<bar>x\<bar> \<ge> 10000000 then fmt_1f (float64 (x / 10000000)) @ ''Cr''
          else if \<bar>x\<bar> \<ge> 100000 then fmt_1f (float64 (x / 100000)) @ ''L''
          else if \<bar>x\<bar> \<ge> 1000 then fmt_1f (float64 (x / 1000)) @ ''K''
          else fmt_comma_0f (Fin x))"
  using assms by (simp add: format_number_def scaled_def to_float_constants)

lemma truediv_int:
  assumes "\<bar>n\<bar> < 2 ^ 1023" and "1 \<le> c"
  shows "truediv (PyInt n) c = Inr (float64 (of_int n / of_int c))"
proof -
  have "\<bar>of_int n / of_int c :: rat\<bar> = of_int \<bar>n\<bar> / of_int c"
    using assms(2) by simp
  also have "\<dots> \<le> of_int \<bar>n\<bar>"
    using assms(2) by (simp add: divide_le_eq mult_le_cancel_left1)
  also have "\<dots> < of_int (2 ^ 1023)"
    using assms(1) by (simp only: of_int_less_iff)
  also have "of_int (2 ^ 1023) = pow2 1023"
    by (simp add: pow2_def)
  finally obtain y where "float64 (of_int n / of_int c) = Fin y"
    using float64_finite by blast
  then show ?thesis by simp
qed

lemma format_number_int:
  assumes "n \<noteq> 0" and "\<bar>n\<bar> < 2 ^ 1023"
  shows "format_number (PyInt n) =
     Inr (if \<bar>n\<bar> \<ge> 10000000 then fmt_1f (float64 (of_int n / 10000000)) @ ''Cr''
          else if \<bar>n\<bar> \<ge> 100000 then fmt_1f (float64 (of_int n / 100000)) @ ''L''
          else if \<bar>n\<bar> \<ge> 1000 then fmt_1f (float64 (of_int n / 1000)) @ ''K''
          else fmt_comma_0f (Fin (of_int n)))"
proof -
  have small: "to_float n = Fin (of_int n)" if "\<not> \<bar>n\<bar> \<ge> 1000"
    using that by (intro to_float_exact) simp
  show ?thesis
    using assms(1) small
    by (simp add: format_number_def scaled_def truediv_int [OF assms(2)] del: truediv.simps)
qed

text \<open>
  C6 (as stated, refuted): \<open>format_number\<close> would return a string for every number. For
  the integer \<open>10 ^ 7 * 2 ^ 1024\<close> the quotient by \<open>10 ^ 7\<close> is beyond the binary64 range and
  the division raises \<open>OverflowError\<close>.
\<close>

theorem C6_counterexample:
  "format_number (PyInt (10000000 * 2 ^ 1024)) = Inl OverflowError"
proof -
  have "float64 (of_int (10000000 * 2 ^ 1024) / of_int 10000000) = PInf"
    by (rule float64_overflow) (simp add: pow2_def)
  then show ?thesis
    by (simp add: format_number_def scaled_def)
qed


lemma format_number_float_minus:
  fixes x :: rat
  assumes "0 < x"
  shows "\<exists>s. format_number (PyFloat (Fin x)) = Inr s \<and> format_number (PyFloat (Fin (- x))) = Inr (''-'' @ s)"
proof -
  have x: "x \<noteq> 0" "- x \<noteq> 0" "\<bar>x\<bar> = x" using assms by simp_all
  have q: "fmt_1f (float64 (- x / of_int c)) = ''-'' @ fmt_1f (float64 (x / of_int c))"
    if "of_int c \<le> x" and "0 < c" for c
    using that by (rule fmt_1f_quotient_minus)
  have q1: "fmt_1f (float64 (- x / 10000000)) = ''-'' @ fmt_1f (float64 (x / 10000000))" if "10000000 \<le> x"
    using q [of 10000000] that by simp
  have q2: "fmt_1f (float64 (- x / 100000)) = ''-'' @ fmt_1f (float64 (x / 100000))" if "100000 \<le> x"
    using q [of 100000] that by simp
  have q3: "fmt_1f (float64 (- x / 1000)) = ''-'' @ fmt_1f (float64 (x / 1000))" if "1000 \<le> x"
    using q [of 1000] that by simp
  have c: "fmt_comma_0f (Fin (- x)) = ''-'' @ fmt_comma_0f (Fin x)"
    using assms by (rule fmt_comma_0f_minus)
  have "format_number (PyFloat (Fin (- x))) =
      Inr (''-'' @ (if \<bar>x\<bar> \<ge> 10000000 then fmt_1f (float64 (x / 10000000)) @ ''Cr''
              else if \<bar>x\<bar> \<ge> 100000 then fmt_1f (float64 (x / 100000)) @ ''L''
              else if \<bar>x\<bar> \<ge> 1000 then fmt_1f (float64 (x / 1000)) @ ''K''
              else fmt_comma_0f (Fin x)))"
    unfolding format_number_float [OF x(2)] abs_minus_cancel x(3) minus_divide_left [symmetric]
    using q1 q2 q3 c by (simp del: fmt_1f.simps fmt_comma_0f.simps)
  with format_number_float [OF x(1)] show ?thesis by simp
qed

lemma format_number_int_minus:
  fixes n :: int
  assumes "0 < n" and "n < 2 ^ 1023"
  shows "\<exists>s. format_number (PyInt n) = Inr s \<and> format_number (PyInt (- n)) = Inr (''-'' @ s)"
proof -
  have n: "n \<noteq> 0" "- n \<noteq> 0" "\<bar>n\<bar> < 2 ^ 1023" "\<bar>- n\<bar> < 2 ^ 1023" "\<bar>n\<bar> = n"
    using assms by simp_all
  have q: "fmt_1f (float64 (- of_int n / of_int c)) = ''-'' @ fmt_1f (float64 (of_int n / of_int c))"
    if "c \<le> n" and "0 < c" for c
  proof -
    have "(of_int c :: rat) \<le> of_int n" using that(1) by (simp only: of_int_le_iff)
    then show ?thesis using that(2) by (rule fmt_1f_quotient_minus)
  qed
  have q1: "fmt_1f (float64 (- of_int n / 10000000)) = ''-'' @ fmt_1f (float64 (of_int n / 10000000))"
    if "10000000 \<le> n"
    using q [of 10000000] that by simp
  have q2: "fmt_1f (float64 (- of_int n / 100000)) = ''-'' @ fmt_1f (float64 (of_int n / 100000))"
    if "100000 \<le> n"
    using q [of 100000] that by simp
  have q3: "fmt_1f (float64 (- of_int n / 1000)) = ''-'' @ fmt_1f (float64 (of_int n / 1000))"
    if "1000 \<le> n"
    using q [of 1000] that by simp
  have "(0::rat) < of_int n" using assms(1) by simp
  then have c: "fmt_comma_0f (Fin (- of_int n)) = ''-'' @ fmt_comma_0f (Fin (of_int n))"
    by (rule fmt_comma_0f_minus)
  have "format_number (PyInt (- n)) =
      Inr (''-'' @ (if \<bar>n\<bar> \<ge> 10000000 then fmt_1f (float64 (of_int n / 10000000)) @ ''Cr''
              else if \<bar>n\<bar> \<ge> 100000 then fmt_1f (float64 (of_int n / 100000)) @ ''L''
              else if \<bar>n\<bar> \<ge> 1000 then fmt_1f (float64 (of_int n / 1000)) @ ''K''
              else fmt_comma_0f (Fin (of_int n))))"
    unfolding format_number_int [OF n(2) n(4)] abs_minus_cancel n(5) of_int_minus
      minus_divide_left [symmetric]
    using q1 q2 q3 c by (simp del: fmt_1f.simps fmt_comma_0f.simps)
  with format_number_int [OF n(1) n(3)] show ?thesis by simp
qed

lemma format_number_overflow:
  fixes n :: int
  assumes "10000000 * 2 ^ 1024 \<le> \<bar>n\<bar>"
  shows "format_number (PyInt n) = Inl OverflowError"
proof -
  have "(of_int (10000000 * 2 ^ 1024) :: rat) \<le> of_int \<bar>n\<bar>"
    using assms by (simp only: of_int_le_iff)
  then have big: "pow2 1024 \<le> \<bar>of_int n\<bar> / 10000000"
    by (simp add: pow2_def)
  have "float64 (of_int n / 10000000) = PInf \<or> float64 (of_int n / 10000000) = NInf"
  proof (cases "0 \<le> n")
    case True
    with big float64_overflow(1) [of "of_int n / 10000000"] show ?thesis by simp
  next
    case False
    with big float64_overflow(2) [of "- of_int n / 10000000"] show ?thesis by simp
  qed
  moreover have "10000000 \<le> \<bar>n\<bar>" using assms by simp
  moreover have "n \<noteq> 0" using assms by auto
  ultimately show ?thesis
    by (auto simp: format_number_def scaled_def)
qed

lemma format_number_examples:
  "format_number (PyInt 12345678) = Inr ''1.2Cr''" "format_number (PyInt 250000) = Inr ''2.5L''"
  "format_number (PyInt 4500) = Inr ''4.5K''"
  by (simp_all add: format_number_def scaled_def float_eval str_nat.simps digit_char_def)

lemma format_number_base:
  "format_number PyNone = Inr ''0''" "format_number (PyFloat NaN) = Inr ''0''"
  "format_number (PyInt 0) = Inr ''0''" "format_number (PyFloat (Fin 0)) = Inr ''0''"
  "format_number (PyFloat PInf) = Inr ''infCr''" "format_number (PyFloat NInf) = Inr ''-infCr''"
  by (simp_all add: format_number_def scaled_def to_float_constants)

text \<open>
  C6 (amended): \<open>format_number\<close> returns \<open>0\<close> for \<open>None\<close>, NaN and zero. For every
  other float and for every other integer of magnitude below \<open>2 ^ 1023\<close> (so for every
  64-bit integer) it returns a string: the quotient by \<open>10 ^ 7\<close> in one decimal and \<open>Cr\<close>
  when the magnitude is at least \<open>10 ^ 7\<close>, else the quotient by \<open>10 ^ 5\<close> and \<open>L\<close> when it
  is at least \<open>10 ^ 5\<close>, else the quotient by 1000 and \<open>K\<close> when it is at least 1000, else
  the number without decimals and with thousands separators; the quotient is the binary64
  one. The string for a negative number is the minus sign and the string for its
  magnitude. An integer of magnitude \<open>10 ^ 7 * 2 ^ 1024\<close> or more is not formatted:
  \<open>OverflowError\<close> is raised. In particular 12345678 gives \<open>1.2Cr\<close>, 250000 gives
  \<open>2.5L\<close>, 4500 gives \<open>4.5K\<close> and 0 gives \<open>0\<close>.
\<close>

theorem C6_format_number:
  "format_number PyNone = Inr ''0'' \<and> format_number (PyFloat NaN) = Inr ''0''
   \<and> format_number (PyInt 0) = Inr ''0'' \<and> format_number (PyFloat (Fin 0)) = Inr ''0''
   \<and> (\<forall>x. x \<noteq> 0 \<longrightarrow>
         format_number (PyFloat (Fin x)) =
           Inr (if \<bar>x\<bar> \<ge> 10000000 then fmt_1f (float64 (x / 10000000)) @ ''Cr''
                else if \<bar>x\<bar> \<ge> 100000 then fmt_1f (float64 (x / 100000)) @ ''L''
                else if \<bar>x\<bar> \<ge> 1000 then fmt_1f (float64 (x / 1000)) @ ''K''
                else fmt_comma_0f (Fin x)))
   \<and> (\<forall>n. n \<noteq> 0 \<and> \<bar>n\<bar> < 2 ^ 1023 \<longrightarrow>
         format_number (PyInt n) =
           Inr (if \<bar>n\<bar> \<ge> 10000000 then fmt_1f (float64 (of_int n / 10000000)) @ ''Cr''
                else if \<bar>n\<bar> \<ge> 100000 then fmt_1f (float64 (of_int n / 100000)) @ ''L''
                else if \<bar>n\<bar> \<ge> 1000 then fmt_1f (float64 (of_int n / 1000)) @ ''K''
                else fmt_comma_0f (Fin (of_int n))))
   \<and> (\<forall>n. 10000000 * 2 ^ 1024 \<le> \<bar>n\<bar> \<longrightarrow> format_number (PyInt n) = Inl OverflowError)
   \<and> (\<forall>x. 0 < x \<longrightarrow>
         (\<exists>s. format_number (PyFloat (Fin x)) = Inr s \<and> format_number (PyFloat (Fin (- x))) = Inr (''-'' @ s)))
   \<and> (\<forall>n. 0 < n \<and> n < 2 ^ 1023 \<longrightarrow>
         (\<exists>s. format_number (PyInt n) = Inr s \<and> format_number (PyInt (- n)) = Inr (''-'' @ s)))
   \<and> format_number (PyFloat PInf) = Inr ''infCr'' \<and> format_number (PyFloat NInf) = Inr ''-infCr''
   \<and> format_number (PyInt 12345678) = Inr ''1.2Cr'' \<and> format_number (PyInt 250000) = Inr ''2.5L''
   \<and> format_number (PyInt 4500) = Inr ''4.5K''"
  apply (intro conjI allI impI)
               apply (rule format_number_base)+
           apply (erule format_number_float)
          apply (erule conjE, erule (1) format_number_int)
         apply (erule format_number_overflow)
        apply (erule format_number_float_minus)
       apply (erule conjE, erule (1) format_number_int_minus)
      apply (rule format_number_base format_number_examples)+
  done

theorem C6_format_number_witness:
  "format_number (PyFloat (Fin 1250)) = Inr ''1.2K''
   \<and> format_number (PyFloat (Fin (- 1250))) = Inr ''-1.2K''
   \<and> format_number (PyInt 11500000) = Inr ''1.1Cr''
   \<and> format_number (PyInt (- 4500)) = Inr ''-4.5K''
   \<and> format_number (PyInt 1050) = Inr ''1.1K''
   \<and> format_number (PyInt 1150) = Inr ''1.1K''
   \<and> format_number (PyInt 999) = Inr ''999''
   \<and> format_number (PyFloat (Fin (9996 / 10))) = Inr ''1,000''
   \<and> format_number (PyInt (- (10000000 * 2 ^ 1024))) = Inl OverflowError"
proof -
  note inst = C6_format_number
  have ev: "fmt_1f (float64 (1250 / 1000)) = ''1.2''" "fmt_1f (float64 (11500000 / 10000000)) = ''1.1''"
    "fmt_1f (float64 (4500 / 1000)) = ''4.5''" "fmt_1f (float64 (1050 / 1000)) = ''1.1''"
    "fmt_1f (float64 (1150 / 1000)) = ''1.1''" "fmt_comma_0f (Fin 999) = ''999''"
    "fmt_comma_0f (Fin (9996 / 10)) = ''1,000''"
    by (simp_all add: float_eval str_nat.simps digit_char_def commas.simps)
  from inst have f: "\<forall>x. x \<noteq> 0 \<longrightarrow>
         format_number (PyFloat (Fin x)) =
           Inr (if \<bar>x\<bar> \<ge> 10000000 then fmt_1f (float64 (x / 10000000)) @ ''Cr''
                else if \<bar>x\<bar> \<ge> 100000 then fmt_1f (float64 (x / 100000)) @ ''L''
                else if \<bar>x\<bar> \<ge> 1000 then fmt_1f (float64 (x / 1000)) @ ''K''
                else fmt_comma_0f (Fin x))"
    by (elim conjE)
  from inst have i: "\<forall>n. n \<noteq> 0 \<and> \<bar>n\<bar> < 2 ^ 1023 \<longrightarrow>
         format_number (PyInt n) =
           Inr (if \<bar>n\<bar> \<ge> 10000000 then fmt_1f (float64 (of_int n / 10000000)) @ ''Cr''
                else if \<bar>n\<bar> \<ge> 100000 then fmt_1f (float64 (of_int n / 100000)) @ ''L''
                else if \<bar>n\<bar> \<ge> 1000 then fmt_1f (float64 (of_int n / 1000)) @ ''K''
                else fmt_comma_0f (Fin (of_int n)))"
    by (elim conjE)
  from inst have o: "\<forall>n. 10000000 * 2 ^ 1024 \<le> \<bar>n\<bar> \<longrightarrow> format_number (PyInt n) = Inl OverflowError"
    by (elim conjE)
  from inst have sf: "\<forall>x. 0 < x \<longrightarrow>
         (\<exists>s. format_number (PyFloat (Fin x)) = Inr s \<and> format_number (PyFloat (Fin (- x))) = Inr (''-'' @ s))"
    by (elim conjE)
  from inst have si: "\<forall>n. 0 < n \<and> n < 2 ^ 1023 \<longrightarrow>
         (\<exists>s. format_number (PyInt n) = Inr s \<and> format_number (PyInt (- n)) = Inr (''-'' @ s))"
    by (elim conjE)
  have a: "format_number (PyFloat (Fin 1250)) = Inr ''1.2K''"
    using f [rule_format, of 1250] ev by simp
  have b: "format_number (PyFloat (Fin (- 1250))) = Inr ''-1.2K''"
    using sf [rule_format, of 1250] a by auto
  have c: "format_number (PyInt 11500000) = Inr ''1.1Cr''"
    using i [rule_format, of 11500000] ev by simp
  have d4: "format_number (PyInt 4500) = Inr ''4.5K''"
    using i [rule_format, of 4500] ev by simp
  have d: "format_number (PyInt (- 4500)) = Inr ''-4.5K''"
    using si [rule_format, of 4500] d4 by auto
  have e: "format_number (PyInt 1050) = Inr ''1.1K''" "format_number (PyInt 1150) = Inr ''1.1K''"
    "format_number (PyInt 999) = Inr ''999''"
    using i [rule_format, of 1050] i [rule_format, of 1150] i [rule_format, of 999] ev by simp_all
  have g: "format_number (PyFloat (Fin (9996 / 10))) = Inr ''1,000''"
    using f [rule_format, of "9996 / 10"] ev by simp
  have h: "format_number (PyInt (- (10000000 * 2 ^ 1024))) = Inl OverflowError"
    using o [rule_format, of "- (10000000 * 2 ^ 1024)"] by simp
  from a b c d e g h show ?thesis by simp
qed

section \<open>The empty collection\<close>





end
